theory Spec2Isabelle
  imports Main "HOL-Library.AList"
begin

section \<open>Data model (types.ts)\<close>

text \<open>
  A \<open>BlockPayload\<close> is the desired state of a block: its text and an optional list of child
  payloads. A \<open>RoamNode\<close> is a block as the backend returns it: text, uid and an optional
  list of children. An absent \<open>children\<close> field is \<open>None\<close>.
\<close>

datatype BlockPayload = BlockPayload (p_text: string) (p_children: "BlockPayload list option")

datatype RoamNode = RoamNode (n_text: string) (n_uid: string) (n_children: "RoamNode list option")

record SyncStats =
  total :: nat
  skipped :: nat
  created :: nat
  updated :: nat
  deleted :: nat

record ChildSyncStats =
  c_skipped :: nat
  c_updated :: nat
  c_created :: nat
  c_deleted :: nat

text \<open>
  \<open>ReconcilerConfig\<close> with the fields of \<open>ReconcilerOptions\<close> that steer the algorithm.
  The logger and the \<open>onProgress\<close> callback only observe the pass and are left out.
  \<open>extractIdFromBlock\<close> returns \<open>string | undefined\<close>: \<open>None\<close> is \<open>undefined\<close>.
\<close>

record 'item ReconcilerConfig =
  extractId :: "'item \<Rightarrow> string"
  buildBlock :: "'item \<Rightarrow> BlockPayload"
  extractIdFromBlock :: "RoamNode \<Rightarrow> string option"
  preserveWhen :: "(RoamNode \<Rightarrow> bool) option"
  mutationDelayMs :: "nat option"
  yieldBatchSize :: "nat option"

record ChildReconcilerConfig =
  extractKey :: "string \<Rightarrow> string option"
  isSpecialBlock :: "(string \<Rightarrow> bool) option"
  c_mutationDelayMs :: "nat option"

section \<open>The adapter and the effects of a pass\<close>

text \<open>
  \<open>RoamApiAdapter\<close> over a backend state \<open>'b\<close>. A mutation either rejects with an error
  \<open>'e\<close> (\<open>Inl\<close>) or resolves with the new backend state; \<open>createBlock\<close> also resolves
  with the uid of the new block. Every call site passes the order \<open>"last"\<close>, so the order
  is not a parameter. \<open>getChildren\<close> is the synchronous read, taken here as returning:
  were it to throw, \<open>reconcile\<close> would reject with what it threw before any mutation is
  issued, a rejection that no mutation causes and that this model does not have.
\<close>

record ('b, 'e) RoamApiAdapter =
  getChildren :: "'b \<Rightarrow> string \<Rightarrow> RoamNode list"
  createBlock :: "'b \<Rightarrow> string \<Rightarrow> BlockPayload \<Rightarrow> 'e + string \<times> 'b"
  updateBlock :: "'b \<Rightarrow> string \<Rightarrow> string \<Rightarrow> 'e + 'b"
  deleteBlock :: "'b \<Rightarrow> string \<Rightarrow> 'e + 'b"

text \<open>
  What a pass does, in order: the mutations it issues on the adapter (a rejected call is
  recorded too: it was issued), the calls of \<open>delay(ms)\<close> and the yields to the host
  (\<open>yieldToMain\<close>, whichever of its two implementations the host selects).
\<close>

datatype event =
    CreateBlock string BlockPayload
  | UpdateBlock string string
  | DeleteBlock string
  | Delay nat
  | YieldToMain

record 'b world =
  backend :: 'b
  trace :: "event list"

text \<open>
  The outcome of an async function: it resolves with a value, or rejects with the error of
  the failed call. A rejection carries the content of the stats object at that moment (the
  object the progress callback holds a reference to).
\<close>

datatype ('e, 's, 'a) outcome = Resolved 'a | Rejected 'e 's

definition DEFAULT_MUTATION_DELAY_MS :: nat where
  "DEFAULT_MUTATION_DELAY_MS = 100"

definition DEFAULT_YIELD_BATCH_SIZE :: nat where
  "DEFAULT_YIELD_BATCH_SIZE = 3"

definition log_event :: "event \<Rightarrow> 'b world \<Rightarrow> 'b world" where
  "log_event ev w = w\<lparr>trace := trace w @ [ev]\<rparr>"

definition delay :: "nat \<Rightarrow> 'b world \<Rightarrow> 'b world" where
  "delay ms w = log_event (Delay ms) w"

definition yieldToMain :: "'b world \<Rightarrow> 'b world" where
  "yieldToMain w = log_event YieldToMain w"

text \<open>
  \<open>operationCount % batchSize === 0\<close>. With a batch size of 0 the remainder is NaN in
  JavaScript and the test is false.
\<close>

definition maybeYield :: "nat \<Rightarrow> nat \<Rightarrow> 'b world \<Rightarrow> 'b world" where
  "maybeYield operationCount batchSize w =
     (if batchSize \<noteq> 0 \<and> operationCount mod batchSize = 0 then yieldToMain w else w)"

text \<open>The awaited adapter calls: \<open>Some e\<close> is a rejection with \<open>e\<close>.\<close>

definition await_createBlock ::
  "('b, 'e) RoamApiAdapter \<Rightarrow> string \<Rightarrow> BlockPayload \<Rightarrow> 'b world \<Rightarrow> 'e option \<times> 'b world" where
  "await_createBlock api parentUid block w =
     (let w1 = log_event (CreateBlock parentUid block) w
      in case createBlock api (backend w1) parentUid block of
           Inl e \<Rightarrow> (Some e, w1)
         | Inr (uid, b) \<Rightarrow> (None, w1\<lparr>backend := b\<rparr>))"

definition await_updateBlock ::
  "('b, 'e) RoamApiAdapter \<Rightarrow> string \<Rightarrow> string \<Rightarrow> 'b world \<Rightarrow> 'e option \<times> 'b world" where
  "await_updateBlock api uid text w =
     (let w1 = log_event (UpdateBlock uid text) w
      in case updateBlock api (backend w1) uid text of
           Inl e \<Rightarrow> (Some e, w1)
         | Inr b \<Rightarrow> (None, w1\<lparr>backend := b\<rparr>))"

definition await_deleteBlock ::
  "('b, 'e) RoamApiAdapter \<Rightarrow> string \<Rightarrow> 'b world \<Rightarrow> 'e option \<times> 'b world" where
  "await_deleteBlock api uid w =
     (let w1 = log_event (DeleteBlock uid) w
      in case deleteBlock api (backend w1) uid of
           Inl e \<Rightarrow> (Some e, w1)
         | Inr b \<Rightarrow> (None, w1\<lparr>backend := b\<rparr>))"

text \<open>
  JavaScript truthiness of a \<open>string | undefined\<close>: \<open>if (key)\<close> passes for a defined,
  non-empty string only.
\<close>

fun truthy :: "string option \<Rightarrow> string option" where
  "truthy None = None"
| "truthy (Some s) = (if s = [] then None else Some s)"

text \<open>\<open>xs ?? []\<close>\<close>

fun orEmpty :: "'a list option \<Rightarrow> 'a list" where
  "orEmpty None = []"
| "orEmpty (Some xs) = xs"

section \<open>ChildrenReconciler (children-reconciler.ts)\<close>

definition childMutationDelay :: "ChildReconcilerConfig \<Rightarrow> nat" where
  "childMutationDelay cfg =
     (case c_mutationDelayMs cfg of None \<Rightarrow> DEFAULT_MUTATION_DELAY_MS | Some ms \<Rightarrow> ms)"

text \<open>\<open>this.config.isSpecialBlock?.(text)\<close>: \<open>undefined\<close>, which is falsy, without the callback.\<close>

definition callIsSpecialBlock :: "ChildReconcilerConfig \<Rightarrow> string \<Rightarrow> bool" where
  "callIsSpecialBlock cfg text = (case isSpecialBlock cfg of None \<Rightarrow> False | Some f \<Rightarrow> f text)"

text \<open>
  The first loop of \<open>syncChildren\<close>: \<open>existingPropsMap\<close> and \<open>existingSpecialBlocks\<close>.
  A JavaScript \<open>Map\<close> keeps insertion order, and \<open>set\<close> on a key it holds replaces the value
  in place: that is \<open>AList.update\<close>. \<open>Map.delete\<close> is \<open>AList.delete\<close>.
\<close>

fun partitionExisting ::
  "ChildReconcilerConfig \<Rightarrow> RoamNode list \<Rightarrow> (string \<times> RoamNode) list \<times> RoamNode list
     \<Rightarrow> (string \<times> RoamNode) list \<times> RoamNode list" where
  "partitionExisting cfg [] (existingPropsMap, existingSpecialBlocks) =
     (existingPropsMap, existingSpecialBlocks)"
| "partitionExisting cfg (child # rest) (existingPropsMap, existingSpecialBlocks) =
     (case truthy (extractKey cfg (n_text child)) of
        Some key \<Rightarrow>
          partitionExisting cfg rest (AList.update key child existingPropsMap, existingSpecialBlocks)
      | None \<Rightarrow>
          if callIsSpecialBlock cfg (n_text child)
          then partitionExisting cfg rest (existingPropsMap, existingSpecialBlocks @ [child])
          else partitionExisting cfg rest (existingPropsMap, existingSpecialBlocks))"

record ChildLoopState =
  existingPropsMap :: "(string \<times> RoamNode) list"
  existingSpecialBlocks :: "RoamNode list"
  c_stats :: ChildSyncStats
  c_operationCount :: nat

text \<open>
  The state before the first desired child: the map and the list of the first loop, fresh
  stats, \<open>operationCount = 0\<close>.
\<close>

definition childLoop0 :: "(string \<times> RoamNode) list \<Rightarrow> RoamNode list \<Rightarrow> ChildLoopState" where
  "childLoop0 pm sp =
     \<lparr>existingPropsMap = pm, existingSpecialBlocks = sp,
      c_stats = \<lparr>c_skipped = 0, c_updated = 0, c_created = 0, c_deleted = 0\<rparr>,
      c_operationCount = 0\<rparr>"

text \<open>
  The inner loop over \<open>existingSpecialBlocks\<close>: delete, delay, \<open>stats.deleted++\<close>.
\<close>

fun deleteSpecialBlocks ::
  "ChildReconcilerConfig \<Rightarrow> ('b, 'e) RoamApiAdapter \<Rightarrow> RoamNode list \<Rightarrow> ChildSyncStats \<Rightarrow> 'b world
     \<Rightarrow> ('e, ChildSyncStats, ChildSyncStats) outcome \<times> 'b world" where
  "deleteSpecialBlocks cfg api [] st w = (Resolved st, w)"
| "deleteSpecialBlocks cfg api (specialBlock # rest) st w =
     (case await_deleteBlock api (n_uid specialBlock) w of
        (Some e, w1) \<Rightarrow> (Rejected e st, w1)
      | (None, w1) \<Rightarrow>
          deleteSpecialBlocks cfg api rest (st\<lparr>c_deleted := c_deleted st + 1\<rparr>)
            (delay (childMutationDelay cfg) w1))"

text \<open>
  The body of the loop over \<open>newChildren\<close>, up to \<open>operationCount++; await maybeYield\<close>.
\<close>

definition syncChild ::
  "ChildReconcilerConfig \<Rightarrow> ('b, 'e) RoamApiAdapter \<Rightarrow> string \<Rightarrow> BlockPayload \<Rightarrow> ChildLoopState
     \<Rightarrow> 'b world \<Rightarrow> ('e, ChildSyncStats, ChildLoopState) outcome \<times> 'b world" where
  "syncChild cfg api parentUid newChild ls w =
     (let st = c_stats ls in
      case truthy (extractKey cfg (p_text newChild)) of
        Some key \<Rightarrow>
          (case map_of (existingPropsMap ls) key of
             Some existing \<Rightarrow>
               if n_text existing = p_text newChild
               then (Resolved (ls\<lparr>c_stats := st\<lparr>c_skipped := c_skipped st + 1\<rparr>,
                                   existingPropsMap := AList.delete key (existingPropsMap ls)\<rparr>), w)
               else
                 (case await_updateBlock api (n_uid existing) (p_text newChild) w of
                    (Some e, w1) \<Rightarrow> (Rejected e st, w1)
                  | (None, w1) \<Rightarrow>
                      (Resolved (ls\<lparr>c_stats := st\<lparr>c_updated := c_updated st + 1\<rparr>,
                                    existingPropsMap := AList.delete key (existingPropsMap ls)\<rparr>),
                       delay (childMutationDelay cfg) w1))
           | None \<Rightarrow>
               (case await_createBlock api parentUid newChild w of
                  (Some e, w1) \<Rightarrow> (Rejected e st, w1)
                | (None, w1) \<Rightarrow>
                    (Resolved (ls\<lparr>c_stats := st\<lparr>c_created := c_created st + 1\<rparr>\<rparr>),
                     delay (childMutationDelay cfg) w1)))
      | None \<Rightarrow>
          if callIsSpecialBlock cfg (p_text newChild)
          then
            (case deleteSpecialBlocks cfg api (existingSpecialBlocks ls) st w of
               (Rejected e st1, w1) \<Rightarrow> (Rejected e st1, w1)
             | (Resolved st1, w1) \<Rightarrow>
                 (case await_createBlock api parentUid newChild w1 of
                    (Some e, w2) \<Rightarrow> (Rejected e st1, w2)
                  | (None, w2) \<Rightarrow>
                      (Resolved (ls\<lparr>c_stats := st1\<lparr>c_created := c_created st1 + 1\<rparr>,
                                    existingSpecialBlocks := []\<rparr>),
                       delay (childMutationDelay cfg) w2)))
          else (Resolved ls, w))"

fun syncNewChildren ::
  "ChildReconcilerConfig \<Rightarrow> ('b, 'e) RoamApiAdapter \<Rightarrow> string \<Rightarrow> BlockPayload list \<Rightarrow> ChildLoopState
     \<Rightarrow> 'b world \<Rightarrow> ('e, ChildSyncStats, ChildLoopState) outcome \<times> 'b world" where
  "syncNewChildren cfg api parentUid [] ls w = (Resolved ls, w)"
| "syncNewChildren cfg api parentUid (newChild # rest) ls w =
     (case syncChild cfg api parentUid newChild ls w of
        (Rejected e st, w1) \<Rightarrow> (Rejected e st, w1)
      | (Resolved ls1, w1) \<Rightarrow>
          (let n = c_operationCount ls1 + 1
           in syncNewChildren cfg api parentUid rest (ls1\<lparr>c_operationCount := n\<rparr>)
                (maybeYield n DEFAULT_YIELD_BATCH_SIZE w1)))"

text \<open>
  The last loop, over what is left of \<open>existingPropsMap\<close>: delay, delete,
  \<open>stats.deleted++\<close>, \<open>operationCount++\<close>, \<open>maybeYield\<close>.
\<close>

fun deleteOrphans ::
  "ChildReconcilerConfig \<Rightarrow> ('b, 'e) RoamApiAdapter \<Rightarrow> (string \<times> RoamNode) list \<Rightarrow> ChildSyncStats
     \<Rightarrow> nat \<Rightarrow> 'b world \<Rightarrow> ('e, ChildSyncStats, ChildSyncStats) outcome \<times> 'b world" where
  "deleteOrphans cfg api [] st operationCount w = (Resolved st, w)"
| "deleteOrphans cfg api ((key, orphanBlock) # rest) st operationCount w =
     (case await_deleteBlock api (n_uid orphanBlock) (delay (childMutationDelay cfg) w) of
        (Some e, w1) \<Rightarrow> (Rejected e st, w1)
      | (None, w1) \<Rightarrow>
          deleteOrphans cfg api rest (st\<lparr>c_deleted := c_deleted st + 1\<rparr>) (operationCount + 1)
            (maybeYield (operationCount + 1) DEFAULT_YIELD_BATCH_SIZE w1))"

definition syncChildren ::
  "ChildReconcilerConfig \<Rightarrow> ('b, 'e) RoamApiAdapter \<Rightarrow> string \<Rightarrow> RoamNode list \<Rightarrow> BlockPayload list
     \<Rightarrow> 'b world \<Rightarrow> ('e, ChildSyncStats, ChildSyncStats) outcome \<times> 'b world" where
  "syncChildren cfg api parentUid existingChildren newChildren w =
     (let (pm, sp) = partitionExisting cfg existingChildren ([], [])
      in case syncNewChildren cfg api parentUid newChildren (childLoop0 pm sp) w of
           (Rejected e st, w1) \<Rightarrow> (Rejected e st, w1)
         | (Resolved ls, w1) \<Rightarrow>
             deleteOrphans cfg api (existingPropsMap ls) (c_stats ls) (c_operationCount ls) w1)"

section \<open>BlockReconciler (block-reconciler.ts)\<close>

text \<open>
  A \<open>BlockReconciler\<close> instance: its configuration and the children reconciler that
  \<open>withChildrenReconciler\<close> attaches (\<open>null\<close> until then). The adapter is shared with the
  children reconciler and is passed to each function.
\<close>

record 'item BlockReconciler =
  config :: "'item ReconcilerConfig"
  childrenReconciler :: "ChildReconcilerConfig option"

definition withChildrenReconciler ::
  "ChildReconcilerConfig \<Rightarrow> 'item BlockReconciler \<Rightarrow> 'item BlockReconciler" where
  "withChildrenReconciler ccfg this = this\<lparr>childrenReconciler := Some ccfg\<rparr>"

definition mutationDelay :: "'item ReconcilerConfig \<Rightarrow> nat" where
  "mutationDelay cfg =
     (case mutationDelayMs cfg of None \<Rightarrow> DEFAULT_MUTATION_DELAY_MS | Some ms \<Rightarrow> ms)"

definition yieldBatch :: "'item ReconcilerConfig \<Rightarrow> nat" where
  "yieldBatch cfg =
     (case yieldBatchSize cfg of None \<Rightarrow> DEFAULT_YIELD_BATCH_SIZE | Some n \<Rightarrow> n)"

definition maybeYieldToMain :: "'item ReconcilerConfig \<Rightarrow> nat \<Rightarrow> 'b world \<Rightarrow> 'b world" where
  "maybeYieldToMain cfg count w = maybeYield count (yieldBatch cfg) w"

text \<open>\<open>this.config.options?.preserveWhen?.(node)\<close>\<close>

definition callPreserveWhen :: "'item ReconcilerConfig \<Rightarrow> RoamNode \<Rightarrow> bool" where
  "callPreserveWhen cfg node = (case preserveWhen cfg of None \<Rightarrow> False | Some f \<Rightarrow> f node)"

fun buildExistingMapFrom ::
  "'item ReconcilerConfig \<Rightarrow> RoamNode list \<Rightarrow> (string \<times> RoamNode) list
     \<Rightarrow> (string \<times> RoamNode) list" where
  "buildExistingMapFrom cfg [] m = m"
| "buildExistingMapFrom cfg (node # rest) m =
     (case truthy (extractIdFromBlock cfg node) of
        Some ident \<Rightarrow> buildExistingMapFrom cfg rest (AList.update ident node m)
      | None \<Rightarrow> buildExistingMapFrom cfg rest m)"

definition buildExistingMap ::
  "'item ReconcilerConfig \<Rightarrow> RoamNode list \<Rightarrow> (string \<times> RoamNode) list" where
  "buildExistingMap cfg nodes = buildExistingMapFrom cfg nodes []"

text \<open>
  \<open>isChildUnchanged\<close> with its loop over the indices \<open>0 .. length - 1\<close>, which runs only
  when both lists have the same length: \<open>childrenUnchanged\<close> walks the two lists in step and
  returns false at the first pair that differs.
\<close>

fun isChildUnchanged :: "RoamNode \<Rightarrow> BlockPayload \<Rightarrow> bool"
  and childrenUnchanged :: "RoamNode list \<Rightarrow> BlockPayload list \<Rightarrow> bool" where
  "isChildUnchanged (RoamNode text uid children) (BlockPayload text' children') =
     (if text \<noteq> text' then False
      else
        (case children of
           None \<Rightarrow>
             (if 0 \<noteq> length (orEmpty children') then False else True)
         | Some existingChildren \<Rightarrow>
             (if length existingChildren \<noteq> length (orEmpty children') then False
              else childrenUnchanged existingChildren (orEmpty children'))))"
| "childrenUnchanged [] newChildren = True"
| "childrenUnchanged (existingChild # rest) [] = True"
| "childrenUnchanged (existingChild # rest) (newChild # rest') =
     (if \<not> isChildUnchanged existingChild newChild then False
      else childrenUnchanged rest rest')"

definition isUnchanged :: "RoamNode \<Rightarrow> BlockPayload \<Rightarrow> bool" where
  "isUnchanged existing newBlock =
     (if n_text existing \<noteq> p_text newBlock then False
      else
        (let existingChildren = orEmpty (n_children existing);
             newChildren = orEmpty (p_children newBlock)
         in if length existingChildren \<noteq> length newChildren then False
            else childrenUnchanged existingChildren newChildren))"

definition updateExistingBlock ::
  "'item BlockReconciler \<Rightarrow> ('b, 'e) RoamApiAdapter \<Rightarrow> RoamNode \<Rightarrow> BlockPayload \<Rightarrow> 'b world
     \<Rightarrow> 'e option \<times> 'b world" where
  "updateExistingBlock this api existing newBlock w =
     (case (if n_text existing \<noteq> p_text newBlock
            then (case await_updateBlock api (n_uid existing) (p_text newBlock) w of
                    (Some e, w1) \<Rightarrow> (Some e, w1)
                  | (None, w1) \<Rightarrow> (None, delay (mutationDelay (config this)) w1))
            else (None, w)) of
        (Some e, w1) \<Rightarrow> (Some e, w1)
      | (None, w1) \<Rightarrow>
          (case childrenReconciler this of
             None \<Rightarrow> (None, w1)
           | Some ccfg \<Rightarrow>
               (case p_children newBlock of
                  None \<Rightarrow> (None, w1)
                | Some newChildren \<Rightarrow>
                    (case syncChildren ccfg api (n_uid existing) (orEmpty (n_children existing))
                            newChildren w1 of
                       (Rejected e st, w2) \<Rightarrow> (Some e, w2)
                     | (Resolved st, w2) \<Rightarrow> (None, w2)))))"

definition createNewBlock ::
  "('b, 'e) RoamApiAdapter \<Rightarrow> string \<Rightarrow> BlockPayload \<Rightarrow> 'b world \<Rightarrow> 'e option \<times> 'b world" where
  "createNewBlock api parentUid block w = await_createBlock api parentUid block w"

text \<open>
  \<open>removeObsolete\<close>: the loop over \<open>existingMap.entries()\<close> with its two \<open>continue\<close>s.
  The count lives in a local variable until the function returns.
\<close>

fun removeObsoleteFrom ::
  "'item ReconcilerConfig \<Rightarrow> ('b, 'e) RoamApiAdapter \<Rightarrow> (string \<times> RoamNode) list \<Rightarrow> string set
     \<Rightarrow> nat \<Rightarrow> nat \<Rightarrow> 'b world \<Rightarrow> ('e, unit, nat) outcome \<times> 'b world" where
  "removeObsoleteFrom cfg api [] seenIds deletedCount operationCount w = (Resolved deletedCount, w)"
| "removeObsoleteFrom cfg api ((ident, node) # rest) seenIds deletedCount operationCount w =
     (if ident \<in> seenIds then removeObsoleteFrom cfg api rest seenIds deletedCount operationCount w
      else if callPreserveWhen cfg node
      then removeObsoleteFrom cfg api rest seenIds deletedCount operationCount w
      else
        (case await_deleteBlock api (n_uid node) w of
           (Some e, w1) \<Rightarrow> (Rejected e (), w1)
         | (None, w1) \<Rightarrow>
             removeObsoleteFrom cfg api rest seenIds (deletedCount + 1) (operationCount + 1)
               (maybeYieldToMain cfg (operationCount + 1) (delay (mutationDelay cfg) w1))))"

definition removeObsolete ::
  "'item ReconcilerConfig \<Rightarrow> ('b, 'e) RoamApiAdapter \<Rightarrow> (string \<times> RoamNode) list \<Rightarrow> string set
     \<Rightarrow> 'b world \<Rightarrow> ('e, unit, nat) outcome \<times> 'b world" where
  "removeObsolete cfg api existingMap seenIds w = removeObsoleteFrom cfg api existingMap seenIds 0 0 w"

record LoopState =
  seenIds :: "string set"
  operationCount :: nat
  stats :: SyncStats

text \<open>
  The state before the first item: fresh stats with \<open>total = items.length\<close>, no id seen,
  \<open>operationCount = 0\<close>.
\<close>

definition loop0 :: "nat \<Rightarrow> LoopState" where
  "loop0 n = \<lparr>seenIds = {}, operationCount = 0,
              stats = \<lparr>total = n, skipped = 0, created = 0, updated = 0, deleted = 0\<rparr>\<rparr>"

text \<open>The body of the loop over \<open>items\<close>, up to \<open>operationCount++\<close>.\<close>

definition reconcileItem ::
  "'item BlockReconciler \<Rightarrow> ('b, 'e) RoamApiAdapter \<Rightarrow> string \<Rightarrow> (string \<times> RoamNode) list \<Rightarrow> 'item
     \<Rightarrow> LoopState \<Rightarrow> 'b world \<Rightarrow> ('e, SyncStats, LoopState) outcome \<times> 'b world" where
  "reconcileItem this api parentUid existingMap item ls w =
     (let ident = extractId (config this) item;
          ls1 = ls\<lparr>seenIds := insert ident (seenIds ls)\<rparr>;
          st = stats ls;
          newBlock = buildBlock (config this) item
      in case map_of existingMap ident of
           Some existingNode \<Rightarrow>
             if isUnchanged existingNode newBlock
             then (Resolved (ls1\<lparr>stats := st\<lparr>skipped := skipped st + 1\<rparr>\<rparr>), w)
             else
               (case updateExistingBlock this api existingNode newBlock w of
                  (Some e, w1) \<Rightarrow> (Rejected e st, w1)
                | (None, w1) \<Rightarrow> (Resolved (ls1\<lparr>stats := st\<lparr>updated := updated st + 1\<rparr>\<rparr>), w1))
         | None \<Rightarrow>
             (case createNewBlock api parentUid newBlock w of
                (Some e, w1) \<Rightarrow> (Rejected e st, w1)
              | (None, w1) \<Rightarrow> (Resolved (ls1\<lparr>stats := st\<lparr>created := created st + 1\<rparr>\<rparr>), w1)))"

fun reconcileItems ::
  "'item BlockReconciler \<Rightarrow> ('b, 'e) RoamApiAdapter \<Rightarrow> string \<Rightarrow> (string \<times> RoamNode) list
     \<Rightarrow> 'item list \<Rightarrow> LoopState \<Rightarrow> 'b world \<Rightarrow> ('e, SyncStats, LoopState) outcome \<times> 'b world" where
  "reconcileItems this api parentUid existingMap [] ls w = (Resolved ls, w)"
| "reconcileItems this api parentUid existingMap (item # rest) ls w =
     (case reconcileItem this api parentUid existingMap item ls w of
        (Rejected e st, w1) \<Rightarrow> (Rejected e st, w1)
      | (Resolved ls1, w1) \<Rightarrow>
          (let n = operationCount ls1 + 1
           in reconcileItems this api parentUid existingMap rest (ls1\<lparr>operationCount := n\<rparr>)
                (maybeYieldToMain (config this) n w1)))"

definition reconcile ::
  "'item BlockReconciler \<Rightarrow> ('b, 'e) RoamApiAdapter \<Rightarrow> string \<Rightarrow> 'item list \<Rightarrow> 'b world
     \<Rightarrow> ('e, SyncStats, SyncStats) outcome \<times> 'b world" where
  "reconcile this api parentUid items w =
     (let existingNodes = getChildren api (backend w) parentUid;
          existingMap = buildExistingMap (config this) existingNodes
      in case reconcileItems this api parentUid existingMap items (loop0 (length items)) w of
           (Rejected e st, w1) \<Rightarrow> (Rejected e st, w1)
         | (Resolved ls, w1) \<Rightarrow>
             (case removeObsolete (config this) api existingMap (seenIds ls) w1 of
                (Rejected e u, w2) \<Rightarrow> (Rejected e (stats ls), w2)
              | (Resolved n, w2) \<Rightarrow> (Resolved ((stats ls)\<lparr>deleted := n\<rparr>), w2)))"

section \<open>Structural equality, as the specification words it\<close>




section \<open>Notions the properties are stated with\<close>

text \<open>The backend mutations among the events of a pass.\<close>

fun isMutation :: "event \<Rightarrow> bool" where
  "isMutation (CreateBlock parentUid block) = True"
| "isMutation (UpdateBlock uid text) = True"
| "isMutation (DeleteBlock uid) = True"
| "isMutation (Delay ms) = False"
| "isMutation YieldToMain = False"


text \<open>
  The keys of the existing children and of the desired children: what \<open>extractKey\<close> yields
  where the code's test \<open>if (key)\<close> passes.
\<close>

definition existingKeys :: "ChildReconcilerConfig \<Rightarrow> RoamNode list \<Rightarrow> string set" where
  "existingKeys cfg existingChildren =
     {key. \<exists>child \<in> set existingChildren. truthy (extractKey cfg (n_text child)) = Some key}"

definition desiredKeys :: "ChildReconcilerConfig \<Rightarrow> BlockPayload list \<Rightarrow> string set" where
  "desiredKeys cfg newChildren =
     {key. \<exists>newChild \<in> set newChildren. truthy (extractKey cfg (p_text newChild)) = Some key}"

definition handled :: "ChildSyncStats \<Rightarrow> nat" where
  "handled st = c_created st + c_updated st + c_skipped st"

text \<open>
  What the backend becomes when the recorded events are applied to it in order: a mutation
  is the adapter's call, a delay or a yield leaves the backend as it is. The first
  rejection stops the replay.
\<close>

fun applyEvent :: "('b, 'e) RoamApiAdapter \<Rightarrow> event \<Rightarrow> 'b \<Rightarrow> 'e + 'b" where
  "applyEvent api (CreateBlock parentUid block) b =
     (case createBlock api b parentUid block of Inl e \<Rightarrow> Inl e | Inr (uid, b') \<Rightarrow> Inr b')"
| "applyEvent api (UpdateBlock uid text) b = updateBlock api b uid text"
| "applyEvent api (DeleteBlock uid) b = deleteBlock api b uid"
| "applyEvent api (Delay ms) b = Inr b"
| "applyEvent api YieldToMain b = Inr b"

fun replay :: "('b, 'e) RoamApiAdapter \<Rightarrow> event list \<Rightarrow> 'b \<Rightarrow> 'e + 'b" where
  "replay api [] b = Inr b"
| "replay api (ev # evs) b =
     (case applyEvent api ev b of Inl e \<Rightarrow> Inl e | Inr b' \<Rightarrow> replay api evs b')"

text \<open>
  A run from \<open>w\<close> to \<open>w'\<close> is faithful to its outcome when it only appends events and
  \<^item> with no rejection, the backend of \<open>w'\<close> is the replay of these events on the backend of \<open>w\<close>;
  \<^item> with a rejection \<open>e\<close>, the last event is a mutation that the backend of \<open>w'\<close> rejects with
    \<open>e\<close>, and that backend is the replay of the events before it: all of them resolved, and
    nothing was issued after the failure or undone.
\<close>

definition faithful :: "('b, 'e) RoamApiAdapter \<Rightarrow> 'b world \<Rightarrow> 'e option \<Rightarrow> 'b world \<Rightarrow> bool" where
  "faithful api w rejection w' =
     (\<exists>evs. trace w' = trace w @ evs \<and>
        (case rejection of
           None \<Rightarrow> replay api evs (backend w) = Inr (backend w')
         | Some e \<Rightarrow>
             (\<exists>done ev. evs = done @ [ev] \<and> isMutation ev \<and>
                replay api done (backend w) = Inr (backend w') \<and>
                applyEvent api ev (backend w') = Inl e)))"

fun rejection :: "('e, 's, 'a) outcome \<Rightarrow> 'e option" where
  "rejection (Resolved a) = None"
| "rejection (Rejected e s) = Some e"

text \<open>
  What a call of \<open>syncChildren\<close> may issue, given the uids of the children in the key map and
  of the tracked special blocks: creations under the parent, updates of keyed children,
  deletions of keyed or special children.
\<close>

fun childAllowed :: "string \<Rightarrow> string set \<Rightarrow> string set \<Rightarrow> event \<Rightarrow> bool" where
  "childAllowed parentUid keyed special (CreateBlock p block) = (p = parentUid)"
| "childAllowed parentUid keyed special (UpdateBlock uid text) = (uid \<in> keyed)"
| "childAllowed parentUid keyed special (DeleteBlock uid) = (uid \<in> keyed \<or> uid \<in> special)"
| "childAllowed parentUid keyed special (Delay ms) = True"
| "childAllowed parentUid keyed special YieldToMain = True"

text \<open>An event stays within a set of uids when the uid it is issued on is in the set.\<close>

fun within :: "string set \<Rightarrow> event \<Rightarrow> bool" where
  "within U (CreateBlock p block) = (p \<in> U)"
| "within U (UpdateBlock uid text) = (uid \<in> U)"
| "within U (DeleteBlock uid) = (uid \<in> U)"
| "within U (Delay ms) = True"
| "within U YieldToMain = True"

text \<open>A run only appends events, and each of them satisfies \<open>P\<close>.\<close>

definition confinedBy :: "(event \<Rightarrow> bool) \<Rightarrow> 'b world \<Rightarrow> 'b world \<Rightarrow> bool" where
  "confinedBy P w w' = (\<exists>evs. trace w' = trace w @ evs \<and> list_all P evs)"

text \<open>
  The existing children with a key, those tracked as special blocks, and the top-level nodes
  with an id (the managed ones): the code's tests \<open>if (key)\<close> and \<open>if (id)\<close>.
\<close>

definition keyedChildren :: "ChildReconcilerConfig \<Rightarrow> RoamNode list \<Rightarrow> RoamNode set" where
  "keyedChildren cfg existingChildren =
     {c \<in> set existingChildren. truthy (extractKey cfg (n_text c)) \<noteq> None}"

definition specialChildren :: "ChildReconcilerConfig \<Rightarrow> RoamNode list \<Rightarrow> RoamNode set" where
  "specialChildren cfg existingChildren =
     {c \<in> set existingChildren.
        truthy (extractKey cfg (n_text c)) = None \<and> callIsSpecialBlock cfg (n_text c)}"

definition managedNodes :: "'item ReconcilerConfig \<Rightarrow> RoamNode list \<Rightarrow> RoamNode set" where
  "managedNodes cfg nodes = {n \<in> set nodes. truthy (extractIdFromBlock cfg n) \<noteq> None}"

text \<open>
  The uids a pass under \<open>parentUid\<close> can issue a mutation on: the parent, the managed nodes
  and the children of the managed nodes.
\<close>

definition reach :: "string \<Rightarrow> RoamNode set \<Rightarrow> string set" where
  "reach parentUid managed =
     insert parentUid
       (n_uid ` managed \<union> (\<Union>n \<in> managed. n_uid ` set (orEmpty (n_children n))))"

text \<open>An event targets a uid: it updates or deletes that block, or creates a block under it.\<close>

fun targets :: "string \<Rightarrow> event \<Rightarrow> bool" where
  "targets u (CreateBlock p block) = (p = u)"
| "targets u (UpdateBlock uid text) = (uid = u)"
| "targets u (DeleteBlock uid) = (uid = u)"
| "targets u (Delay ms) = False"
| "targets u YieldToMain = False"

text \<open>
  The uid of \<open>node\<close> is its own among the fetched nodes: no other top-level node and no
  child of another top-level node carries it (uids identify blocks).
\<close>

definition ownsUid :: "RoamNode \<Rightarrow> RoamNode list \<Rightarrow> bool" where
  "ownsUid node nodes =
     (\<forall>m \<in> set nodes. m \<noteq> node \<longrightarrow>
        n_uid m \<noteq> n_uid node \<and> n_uid node \<notin> n_uid ` set (orEmpty (n_children m)))"

text \<open>
  The same reconciler with an extraction that returns absent wherever the configured one
  returns the empty string; likewise for the key extraction of the children reconciler.
\<close>

definition emptyIdAsAbsent :: "'item BlockReconciler \<Rightarrow> 'item BlockReconciler" where
  "emptyIdAsAbsent this =
     this\<lparr>config := (config this)
       \<lparr>extractIdFromBlock := (\<lambda>node. truthy (extractIdFromBlock (config this) node))\<rparr>\<rparr>"

definition emptyKeyAsAbsent :: "ChildReconcilerConfig \<Rightarrow> ChildReconcilerConfig" where
  "emptyKeyAsAbsent cfg = cfg\<lparr>extractKey := (\<lambda>text. truthy (extractKey cfg text))\<rparr>"

text \<open>
  Pacing as the specification states it: in a sequence of events, every mutation is directly
  followed by a delay of \<open>ms\<close>.
\<close>

fun delayedAfterEachMutation :: "nat \<Rightarrow> event list \<Rightarrow> bool" where
  "delayedAfterEachMutation ms [] = True"
| "delayedAfterEachMutation ms [ev] = (\<not> isMutation ev)"
| "delayedAfterEachMutation ms (ev # next # rest) =
     ((\<not> isMutation ev \<or> next = Delay ms) \<and> delayedAfterEachMutation ms (next # rest))"

section \<open>Fixtures\<close>

text \<open>
  The mock adapter of the test suites (\<open>createMockAdapter\<close>): \<open>getChildren\<close> returns the
  nodes the test installed, \<open>createBlock\<close> resolves with \<open>"new-uid"\<close>, the other two resolve.
\<close>

definition mockAdapter :: "(RoamNode list, string) RoamApiAdapter" where
  "mockAdapter =
     \<lparr>getChildren = (\<lambda>b parentUid. b),
      createBlock = (\<lambda>b parentUid block. Inr (''new-uid'', b)),
      updateBlock = (\<lambda>b uid text. Inr b),
      deleteBlock = (\<lambda>b uid. Inr b)\<rparr>"

text \<open>
  A test configuration: an item is its id and its payload; the id of a block is the part of
  its text before the first space (absent when the text has no space).
\<close>

fun idOfText :: "string \<Rightarrow> string option" where
  "idOfText [] = None"
| "idOfText (c # cs) =
     (if c = CHR '' '' then Some []
      else (case idOfText cs of None \<Rightarrow> None | Some r \<Rightarrow> Some (c # r)))"

definition testConfig :: "(string \<times> BlockPayload) ReconcilerConfig" where
  "testConfig =
     \<lparr>extractId = fst, buildBlock = snd,
      extractIdFromBlock = (\<lambda>node. idOfText (n_text node)),
      preserveWhen = None, mutationDelayMs = Some 0, yieldBatchSize = Some 100\<rparr>"

definition testReconciler :: "(string \<times> BlockPayload) BlockReconciler" where
  "testReconciler = \<lparr>config = testConfig, childrenReconciler = None\<rparr>"

definition world0 :: "RoamNode list \<Rightarrow> RoamNode list world" where
  "world0 nodes = \<lparr>backend = nodes, trace = []\<rparr>"


text \<open>
  A child configuration in the manner of the test suite: the key of \<open>key:: value\<close> is what
  stands before the first \<open>::\<close>, and a special block starts with \<open>__comments__\<close>.
\<close>

fun keyOfText :: "string \<Rightarrow> string option" where
  "keyOfText [] = None"
| "keyOfText [c] = None"
| "keyOfText (c # d # cs) =
     (if c = CHR '':'' \<and> d = CHR '':'' then Some []
      else (case keyOfText (d # cs) of None \<Rightarrow> None | Some r \<Rightarrow> Some (c # r)))"

definition testChildConfig :: ChildReconcilerConfig where
  "testChildConfig =
     \<lparr>extractKey = keyOfText,
      isSpecialBlock = Some (\<lambda>text. take 12 text = ''__comments__''),
      c_mutationDelayMs = Some 0\<rparr>"

text \<open>A mock adapter whose calls resolve while a budget lasts and reject after that.\<close>

definition budgetAdapter :: "(RoamNode list \<times> nat, string) RoamApiAdapter" where
  "budgetAdapter =
     \<lparr>getChildren = (\<lambda>b parentUid. fst b),
      createBlock = (\<lambda>b parentUid block.
         if snd b = 0 then Inl ''rejected'' else Inr (''new-uid'', (fst b, snd b - 1))),
      updateBlock = (\<lambda>b uid text.
         if snd b = 0 then Inl ''rejected'' else Inr (fst b, snd b - 1)),
      deleteBlock = (\<lambda>b uid.
         if snd b = 0 then Inl ''rejected'' else Inr (fst b, snd b - 1))\<rparr>"

text \<open>
  A child configuration where special blocks are the texts that start with \<open>::\<close>; the key
  extraction of the test suite yields the empty string for them.
\<close>

definition emptyKeyConfig :: ChildReconcilerConfig where
  "emptyKeyConfig =
     \<lparr>extractKey = keyOfText,
      isSpecialBlock = Some (\<lambda>text. take 2 text = ''::''),
      c_mutationDelayMs = Some 0\<rparr>"

text \<open>The test reconciler with the default delay and batch size.\<close>

definition defaultReconciler :: "(string \<times> BlockPayload) BlockReconciler" where
  "defaultReconciler =
     \<lparr>config = testConfig\<lparr>mutationDelayMs := None, yieldBatchSize := None\<rparr>,
      childrenReconciler = None\<rparr>"

section \<open>An in-memory backend\<close>

text \<open>
  The backend behind the adapter is outside the repository (the document-tree backend is
  external, the adapter is an interface). What follows is an in-memory store that keeps the
  adapter contract for the blocks of one page, the parent of every call. Blocks below the
  top level are carried by their parents and are not addressed.
\<close>








section \<open>Properties\<close>

subsection \<open>Structural equality\<close>





subsection \<open>The trace of the primitive effects\<close>

lemma trace_log_event [simp]: "trace (log_event ev w) = trace w @ [ev]"
  and backend_log_event [simp]: "backend (log_event ev w) = backend w"
  by (simp_all add: log_event_def)

lemma trace_delay [simp]: "trace (delay ms w) = trace w @ [Delay ms]"
  and backend_delay [simp]: "backend (delay ms w) = backend w"
  by (simp_all add: delay_def)

lemma trace_maybeYield [simp]:
  "trace (maybeYield n b w) = trace w @ (if b \<noteq> 0 \<and> n mod b = 0 then [YieldToMain] else [])"
  and backend_maybeYield [simp]: "backend (maybeYield n b w) = backend w"
  by (simp_all add: maybeYield_def yieldToMain_def)

lemma trace_maybeYieldToMain [simp]:
  "trace (maybeYieldToMain cfg n w) =
     trace w @ (if yieldBatch cfg \<noteq> 0 \<and> n mod yieldBatch cfg = 0 then [YieldToMain] else [])"
  and backend_maybeYieldToMain [simp]: "backend (maybeYieldToMain cfg n w) = backend w"
  by (simp_all add: maybeYieldToMain_def)

lemma await_deleteBlock_trace:
  "await_deleteBlock api u w = (r, w1) \<Longrightarrow> trace w1 = trace w @ [DeleteBlock u]"
  by (auto simp: await_deleteBlock_def Let_def split: sum.splits)

lemma await_updateBlock_trace:
  "await_updateBlock api u t w = (r, w1) \<Longrightarrow> trace w1 = trace w @ [UpdateBlock u t]"
  by (auto simp: await_updateBlock_def Let_def split: sum.splits)

lemma await_createBlock_trace:
  "await_createBlock api p b w = (r, w1) \<Longrightarrow> trace w1 = trace w @ [CreateBlock p b]"
  by (auto simp: await_createBlock_def Let_def split: sum.splits prod.splits)

subsection \<open>Deletion of obsolete blocks\<close>






subsection \<open>The children reconciler\<close>

lemma partitionExisting_keys:
  "partitionExisting cfg cs (pm, sp) = (pm', sp') \<Longrightarrow>
     fst ` set pm' = fst ` set pm \<union> existingKeys cfg cs"
proof (induction cs arbitrary: pm sp)
  case Nil
  then show ?case by (simp add: existingKeys_def)
next
  case (Cons c cs)
  show ?case
  proof (cases "truthy (extractKey cfg (n_text c))")
    case None
    with Cons.prems have "partitionExisting cfg cs (pm, if callIsSpecialBlock cfg (n_text c) then sp @ [c] else sp) = (pm', sp')"
      by (auto split: if_splits)
    from Cons.IH[OF this] None show ?thesis by (auto simp: existingKeys_def)
  next
    case (Some k)
    with Cons.prems have "partitionExisting cfg cs (AList.update k c pm, sp) = (pm', sp')"
      by simp
    from Cons.IH[OF this] Some show ?thesis by (auto simp: existingKeys_def dom_update)
  qed
qed

lemma partitionExisting_distinct:
  "partitionExisting cfg cs (pm, sp) = (pm', sp') \<Longrightarrow> distinct (map fst pm) \<Longrightarrow>
     distinct (map fst pm')"
proof (induction cs arbitrary: pm sp)
  case Nil
  then show ?case by simp
next
  case (Cons c cs)
  show ?case
  proof (cases "truthy (extractKey cfg (n_text c))")
    case None
    with Cons.prems have "partitionExisting cfg cs (pm, if callIsSpecialBlock cfg (n_text c) then sp @ [c] else sp) = (pm', sp')"
      by (auto split: if_splits)
    from Cons.IH[OF this] Cons.prems show ?thesis by simp
  next
    case (Some k)
    with Cons.prems have "partitionExisting cfg cs (AList.update k c pm, sp) = (pm', sp')"
      by simp
    from Cons.IH[OF this] Cons.prems show ?thesis by (simp add: distinct_update)
  qed
qed

lemma delete_absent: "map_of m k = None \<Longrightarrow> AList.delete k m = m"
  by (simp add: map_of_eq_None_iff)

lemma length_card_keys: "distinct (map fst xs) \<Longrightarrow> length xs = card (fst ` set xs)"
  using distinct_card[of "map fst xs"] by simp

lemma filter_delete:
  "filter (\<lambda>(key, node). key \<notin> D) (AList.delete k m) =
   filter (\<lambda>(key, node). key \<notin> insert k D) m"
  by (induction m) auto

lemma syncChild_keyed:
  assumes "truthy (extractKey cfg (p_text newChild)) = Some key"
    and "syncChild cfg api parentUid newChild ls w = (Resolved ls', w')"
  shows "existingPropsMap ls' = AList.delete key (existingPropsMap ls)"
    and "existingSpecialBlocks ls' = existingSpecialBlocks ls"
    and "handled (c_stats ls') = handled (c_stats ls) + 1"
    and "c_deleted (c_stats ls') = c_deleted (c_stats ls)"
    and "c_operationCount ls' = c_operationCount ls"
  using assms
  by (auto simp: syncChild_def Let_def handled_def delete_absent
           split: option.splits if_splits prod.splits)

lemma syncNewChildren_keyed:
  assumes "\<forall>newChild \<in> set newChildren. truthy (extractKey cfg (p_text newChild)) \<noteq> None"
    and "syncNewChildren cfg api parentUid newChildren ls w = (Resolved ls', w')"
  shows "existingPropsMap ls' =
           filter (\<lambda>(key, node). key \<notin> desiredKeys cfg newChildren) (existingPropsMap ls)
         \<and> handled (c_stats ls') = handled (c_stats ls) + length newChildren
         \<and> c_deleted (c_stats ls') = c_deleted (c_stats ls)"
  using assms
proof (induction newChildren arbitrary: ls w)
  case Nil
  then show ?case by (simp add: desiredKeys_def)
next
  case (Cons c cs)
  from Cons.prems(1) obtain k where k: "truthy (extractKey cfg (p_text c)) = Some k" by auto
  from Cons.prems(2) obtain ls1 w1 where
    step: "syncChild cfg api parentUid c ls w = (Resolved ls1, w1)" and
    rest: "syncNewChildren cfg api parentUid cs (ls1\<lparr>c_operationCount := c_operationCount ls1 + 1\<rparr>)
             (maybeYield (c_operationCount ls1 + 1) DEFAULT_YIELD_BATCH_SIZE w1) = (Resolved ls', w')"
    by (auto simp: Let_def split: prod.splits outcome.splits)
  from Cons.prems(1) have all: "\<forall>newChild \<in> set cs. truthy (extractKey cfg (p_text newChild)) \<noteq> None"
    by simp
  have dk: "desiredKeys cfg (c # cs) = insert k (desiredKeys cfg cs)"
    using k by (auto simp: desiredKeys_def)
  from Cons.IH[OF all rest] syncChild_keyed[OF k step]
  show ?case
    by (simp add: dk filter_delete)
qed

lemma deleteOrphans_resolved:
  "deleteOrphans cfg api m st oc w = (Resolved st', w') \<Longrightarrow>
     c_deleted st' = c_deleted st + length m \<and> handled st' = handled st"
proof (induction m arbitrary: st oc w)
  case Nil
  then show ?case by simp
next
  case (Cons entry m)
  obtain key node where entry: "entry = (key, node)" by (cases entry)
  from Cons.prems entry obtain w1 where
    "deleteOrphans cfg api m (st\<lparr>c_deleted := c_deleted st + 1\<rparr>) (oc + 1)
       (maybeYield (oc + 1) DEFAULT_YIELD_BATCH_SIZE w1) = (Resolved st', w')"
    by (auto split: prod.splits option.splits)
  from Cons.IH[OF this] show ?case by (simp add: handled_def)
qed

text \<open>
  C4. When every desired child's text yields a key (the test \<open>if (key)\<close> passes) and the
  call completes, \<open>created + updated + skipped\<close> is the number of desired children, and
  \<open>deleted\<close> is the number of distinct keys of the existing children that are not keys of
  desired children.
\<close>

theorem syncChildren_key_based_convergence:
  assumes "\<forall>newChild \<in> set newChildren. truthy (extractKey cfg (p_text newChild)) \<noteq> None"
    and "syncChildren cfg api parentUid existingChildren newChildren w = (Resolved st, w')"
  shows "c_created st + c_updated st + c_skipped st = length newChildren
       \<and> c_deleted st = card (existingKeys cfg existingChildren - desiredKeys cfg newChildren)"
proof -
  obtain pm sp where part: "partitionExisting cfg existingChildren ([], []) = (pm, sp)"
    by (cases "partitionExisting cfg existingChildren ([], [])")
  from assms(2) part obtain ls w1 where
    loop: "syncNewChildren cfg api parentUid newChildren
             \<lparr>existingPropsMap = pm, existingSpecialBlocks = sp,
              c_stats = \<lparr>c_skipped = 0, c_updated = 0, c_created = 0, c_deleted = 0\<rparr>,
              c_operationCount = 0\<rparr> w = (Resolved ls, w1)" and
    orphans: "deleteOrphans cfg api (existingPropsMap ls) (c_stats ls) (c_operationCount ls) w1
                = (Resolved st, w')"
    by (auto simp: syncChildren_def childLoop0_def Let_def split: prod.splits outcome.splits)
  note l = syncNewChildren_keyed[OF assms(1) loop] and d = deleteOrphans_resolved[OF orphans]
  have keys: "fst ` set pm = existingKeys cfg existingChildren"
    using partitionExisting_keys[OF part] by simp
  have dist: "distinct (map fst pm)"
    using partitionExisting_distinct[OF part] by simp
  let ?rest = "filter (\<lambda>(key, node). key \<notin> desiredKeys cfg newChildren) pm"
  have "distinct (map fst ?rest)"
    using dist by (simp add: distinct_map_filter)
  then have "length ?rest = card (fst ` set ?rest)"
    by (rule length_card_keys)
  also have "fst ` set ?rest = existingKeys cfg existingChildren - desiredKeys cfg newChildren"
    unfolding keys[symmetric] by (auto simp: image_iff)
  finally have len: "length ?rest = card (existingKeys cfg existingChildren - desiredKeys cfg newChildren)" .
  from l d len show ?thesis by (simp add: handled_def)
qed










theorem syncChildren_key_based_convergence_witness:
  "syncChildren testChildConfig mockAdapter ''parent-uid''
     [RoamNode ''priority:: high'' ''uid-1'' None, RoamNode ''status:: old-status'' ''uid-2'' None,
      RoamNode ''to-delete:: value'' ''uid-3'' None]
     [BlockPayload ''priority:: high'' None, BlockPayload ''status:: new-status'' None,
      BlockPayload ''new-prop:: value'' None] (world0 [])
   = (Resolved \<lparr>c_skipped = 1, c_updated = 1, c_created = 1, c_deleted = 1\<rparr>,
      \<lparr>backend = [],
       trace = [UpdateBlock ''uid-2'' ''status:: new-status'', Delay 0,
                CreateBlock ''parent-uid'' (BlockPayload ''new-prop:: value'' None), Delay 0,
                YieldToMain, Delay 0, DeleteBlock ''uid-3'']\<rparr>)
   \<and> card (existingKeys testChildConfig
             [RoamNode ''priority:: high'' ''uid-1'' None,
              RoamNode ''status:: old-status'' ''uid-2'' None,
              RoamNode ''to-delete:: value'' ''uid-3'' None]
           - desiredKeys testChildConfig
               [BlockPayload ''priority:: high'' None, BlockPayload ''status:: new-status'' None,
                BlockPayload ''new-prop:: value'' None]) = 1"
proof -
  have keyed: "\<forall>newChild \<in> set [BlockPayload ''priority:: high'' None,
                  BlockPayload ''status:: new-status'' None,
                  BlockPayload ''new-prop:: value'' None].
                truthy (extractKey testChildConfig (p_text newChild)) \<noteq> None"
    by (simp add: testChildConfig_def)
  have run: "syncChildren testChildConfig mockAdapter ''parent-uid''
     [RoamNode ''priority:: high'' ''uid-1'' None, RoamNode ''status:: old-status'' ''uid-2'' None,
      RoamNode ''to-delete:: value'' ''uid-3'' None]
     [BlockPayload ''priority:: high'' None, BlockPayload ''status:: new-status'' None,
      BlockPayload ''new-prop:: value'' None] (world0 [])
   = (Resolved \<lparr>c_skipped = 1, c_updated = 1, c_created = 1, c_deleted = 1\<rparr>,
      \<lparr>backend = [],
       trace = [UpdateBlock ''uid-2'' ''status:: new-status'', Delay 0,
                CreateBlock ''parent-uid'' (BlockPayload ''new-prop:: value'' None), Delay 0,
                YieldToMain, Delay 0, DeleteBlock ''uid-3'']\<rparr>)"
    by code_simp
  from syncChildren_key_based_convergence[OF keyed run] run show ?thesis by simp
qed



subsection \<open>Rejections\<close>

lemma replay_append:
  "replay api (xs @ ys) b = (case replay api xs b of Inl e \<Rightarrow> Inl e | Inr b' \<Rightarrow> replay api ys b')"
  by (induction xs arbitrary: b) (auto split: sum.splits)

lemma faithful_refl: "faithful api w None w"
  by (simp add: faithful_def)

lemma faithful_seq:
  assumes "faithful api w None w1" and "faithful api w1 r w2"
  shows "faithful api w r w2"
proof -
  from assms(1) obtain xs where
    xs: "trace w1 = trace w @ xs" "replay api xs (backend w) = Inr (backend w1)"
    by (auto simp: faithful_def)
  show ?thesis
  proof (cases r)
    case None
    with assms(2) obtain ys where
      "trace w2 = trace w1 @ ys" "replay api ys (backend w1) = Inr (backend w2)"
      by (auto simp: faithful_def)
    with xs have "trace w2 = trace w @ (xs @ ys)"
      "replay api (xs @ ys) (backend w) = Inr (backend w2)"
      by (simp_all add: replay_append)
    with None show ?thesis unfolding faithful_def by (intro exI[of _ "xs @ ys"]) simp
  next
    case (Some e)
    with assms(2) obtain ys ev where
      ys: "trace w2 = trace w1 @ ys @ [ev]" "isMutation ev"
          "replay api ys (backend w1) = Inr (backend w2)"
          "applyEvent api ev (backend w2) = Inl e"
      by (auto simp: faithful_def)
    with xs have "trace w2 = trace w @ ((xs @ ys) @ [ev])"
      "replay api (xs @ ys) (backend w) = Inr (backend w2)"
      by (simp_all add: replay_append)
    with Some ys(2,4) show ?thesis
      unfolding faithful_def
      by (intro exI[of _ "(xs @ ys) @ [ev]"]) (simp del: append_assoc)
  qed
qed

lemma faithful_delay: "faithful api w None (delay ms w)"
  by (simp add: faithful_def)

lemma faithful_maybeYield: "faithful api w None (maybeYield n b w)"
  by (simp add: faithful_def)

lemma faithful_maybeYieldToMain: "faithful api w None (maybeYieldToMain cfg n w)"
  by (simp add: faithful_def)

lemma faithful_call:
  assumes "trace w1 = trace w @ [ev]" and "isMutation ev"
    and "case applyEvent api ev (backend w) of
           Inl e \<Rightarrow> r = Some e \<and> backend w1 = backend w
         | Inr b \<Rightarrow> r = None \<and> backend w1 = b"
  shows "faithful api w r w1"
proof (cases "applyEvent api ev (backend w)")
  case (Inl e)
  with assms have "r = Some e" "backend w1 = backend w" by simp_all
  moreover have "\<exists>done eva. [ev] = done @ [eva] \<and> isMutation eva \<and>
          replay api done (backend w) = Inr (backend w) \<and> applyEvent api eva (backend w) = Inl e"
    using assms(2) Inl by (intro exI[of _ "[]"] exI[of _ ev]) simp
  ultimately show ?thesis
    using assms(1) unfolding faithful_def by (intro exI[of _ "[ev]"]) simp
next
  case (Inr b)
  with assms have "r = None" "backend w1 = b" by simp_all
  with assms(1) Inr show ?thesis
    unfolding faithful_def by (intro exI[of _ "[ev]"]) simp
qed

lemma faithful_await_createBlock:
  "await_createBlock api p blk w = (r, w1) \<Longrightarrow> faithful api w r w1"
  by (rule faithful_call[where ev = "CreateBlock p blk"])
     (auto simp: await_createBlock_def Let_def split: sum.splits prod.splits)

lemma faithful_await_updateBlock:
  "await_updateBlock api u t w = (r, w1) \<Longrightarrow> faithful api w r w1"
  by (rule faithful_call[where ev = "UpdateBlock u t"])
     (auto simp: await_updateBlock_def Let_def split: sum.splits)

lemma faithful_await_deleteBlock:
  "await_deleteBlock api u w = (r, w1) \<Longrightarrow> faithful api w r w1"
  by (rule faithful_call[where ev = "DeleteBlock u"])
     (auto simp: await_deleteBlock_def Let_def split: sum.splits)


lemma faithful_then_delay: "faithful api w None w1 \<Longrightarrow> faithful api w None (delay ms w1)"
  by (rule faithful_seq[OF _ faithful_delay])

lemma faithful_then_maybeYield:
  "faithful api w None w1 \<Longrightarrow> faithful api w None (maybeYield n b w1)"
  by (rule faithful_seq[OF _ faithful_maybeYield])

lemma faithful_then_maybeYieldToMain:
  "faithful api w None w1 \<Longrightarrow> faithful api w None (maybeYieldToMain cfg n w1)"
  by (rule faithful_seq[OF _ faithful_maybeYieldToMain])

lemma faithful_deleteSpecialBlocks:
  "deleteSpecialBlocks cfg api bs st w = (r, w') \<Longrightarrow> faithful api w (rejection r) w'"
proof (induction bs arbitrary: st w)
  case Nil
  then show ?case by (auto simp: faithful_refl)
next
  case (Cons b bs)
  obtain r1 w1 where d: "await_deleteBlock api (n_uid b) w = (r1, w1)"
    by (cases "await_deleteBlock api (n_uid b) w")
  note f1 = faithful_await_deleteBlock[OF d]
  show ?case
  proof (cases r1)
    case (Some e)
    with Cons.prems d f1 show ?thesis by auto
  next
    case None
    with Cons.prems d have
      "deleteSpecialBlocks cfg api bs (st\<lparr>c_deleted := c_deleted st + 1\<rparr>)
         (delay (childMutationDelay cfg) w1) = (r, w')"
      by simp
    from faithful_seq[OF faithful_then_delay Cons.IH[OF this]] f1 None show ?thesis by simp
  qed
qed

lemma faithful_syncChild:
  assumes "syncChild cfg api parentUid newChild ls w = (r, w')"
  shows "faithful api w (rejection r) w'"
proof (cases "truthy (extractKey cfg (p_text newChild))")
  case (Some key)
  show ?thesis
  proof (cases "map_of (existingPropsMap ls) key")
    case None
    obtain r1 w1 where c: "await_createBlock api parentUid newChild w = (r1, w1)"
      by (cases "await_createBlock api parentUid newChild w")
    from faithful_await_createBlock[OF c] assms Some None c show ?thesis
      by (cases r1) (auto simp: syncChild_def Let_def intro: faithful_then_delay)
  next
    case (Some existing)
    obtain r1 w1 where
      u: "await_updateBlock api (n_uid existing) (p_text newChild) w = (r1, w1)"
      by (cases "await_updateBlock api (n_uid existing) (p_text newChild) w")
    from faithful_await_updateBlock[OF u] assms \<open>truthy (extractKey cfg (p_text newChild)) = Some key\<close>
      Some u show ?thesis
      by (cases r1)
         (auto simp: syncChild_def Let_def faithful_refl split: if_splits intro: faithful_then_delay)
  qed
next
  case None
  show ?thesis
  proof (cases "callIsSpecialBlock cfg (p_text newChild)")
    case False
    with assms None show ?thesis by (auto simp: syncChild_def Let_def faithful_refl)
  next
    case True
    obtain r1 w1 where
      d: "deleteSpecialBlocks cfg api (existingSpecialBlocks ls) (c_stats ls) w = (r1, w1)"
      by (cases "deleteSpecialBlocks cfg api (existingSpecialBlocks ls) (c_stats ls) w")
    note fd = faithful_deleteSpecialBlocks[OF d]
    show ?thesis
    proof (cases r1)
      case (Rejected e st1)
      with assms None True d fd show ?thesis by (auto simp: syncChild_def Let_def)
    next
      case (Resolved st1)
      obtain r2 w2 where c: "await_createBlock api parentUid newChild w1 = (r2, w2)"
        by (cases "await_createBlock api parentUid newChild w1")
      from fd Resolved have f1: "faithful api w None w1" by simp
      note f2 = faithful_seq[OF f1 faithful_await_createBlock[OF c]]
      from assms None True d Resolved c f2 show ?thesis
        by (cases r2) (auto simp: syncChild_def Let_def intro: faithful_then_delay)
    qed
  qed
qed

lemma faithful_syncNewChildren:
  "syncNewChildren cfg api parentUid cs ls w = (r, w') \<Longrightarrow> faithful api w (rejection r) w'"
proof (induction cs arbitrary: ls w)
  case Nil
  then show ?case by (auto simp: faithful_refl)
next
  case (Cons c cs)
  obtain r1 w1 where s: "syncChild cfg api parentUid c ls w = (r1, w1)"
    by (cases "syncChild cfg api parentUid c ls w")
  note f1 = faithful_syncChild[OF s]
  show ?case
  proof (cases r1)
    case (Rejected e st)
    with Cons.prems s f1 show ?thesis by auto
  next
    case (Resolved ls1)
    with Cons.prems s have
      "syncNewChildren cfg api parentUid cs (ls1\<lparr>c_operationCount := c_operationCount ls1 + 1\<rparr>)
         (maybeYield (c_operationCount ls1 + 1) DEFAULT_YIELD_BATCH_SIZE w1) = (r, w')"
      by (simp add: Let_def)
    from faithful_seq[OF faithful_then_maybeYield Cons.IH[OF this]] f1 Resolved
    show ?thesis by simp
  qed
qed

lemma faithful_deleteOrphans:
  "deleteOrphans cfg api m st oc w = (r, w') \<Longrightarrow> faithful api w (rejection r) w'"
proof (induction m arbitrary: st oc w)
  case Nil
  then show ?case by (auto simp: faithful_refl)
next
  case (Cons entry m)
  obtain key node where entry: "entry = (key, node)" by (cases entry)
  obtain r1 w1 where
    d: "await_deleteBlock api (n_uid node) (delay (childMutationDelay cfg) w) = (r1, w1)"
    by (cases "await_deleteBlock api (n_uid node) (delay (childMutationDelay cfg) w)")
  note f1 = faithful_seq[OF faithful_delay faithful_await_deleteBlock[OF d]]
  show ?case
  proof (cases r1)
    case (Some e)
    with Cons.prems entry d f1 show ?thesis by auto
  next
    case None
    with Cons.prems entry d have
      "deleteOrphans cfg api m (st\<lparr>c_deleted := c_deleted st + 1\<rparr>) (oc + 1)
         (maybeYield (oc + 1) DEFAULT_YIELD_BATCH_SIZE w1) = (r, w')"
      by simp
    from faithful_seq[OF faithful_then_maybeYield Cons.IH[OF this]] f1 None show ?thesis by simp
  qed
qed

lemma faithful_syncChildren:
  assumes "syncChildren cfg api parentUid existingChildren newChildren w = (r, w')"
  shows "faithful api w (rejection r) w'"
proof -
  obtain pm sp where part: "partitionExisting cfg existingChildren ([], []) = (pm, sp)"
    by (cases "partitionExisting cfg existingChildren ([], [])")
  obtain r1 w1 where
    l: "syncNewChildren cfg api parentUid newChildren
          \<lparr>existingPropsMap = pm, existingSpecialBlocks = sp,
           c_stats = \<lparr>c_skipped = 0, c_updated = 0, c_created = 0, c_deleted = 0\<rparr>,
           c_operationCount = 0\<rparr> w = (r1, w1)"
    by (cases "syncNewChildren cfg api parentUid newChildren
          \<lparr>existingPropsMap = pm, existingSpecialBlocks = sp,
           c_stats = \<lparr>c_skipped = 0, c_updated = 0, c_created = 0, c_deleted = 0\<rparr>,
           c_operationCount = 0\<rparr> w")
  note f1 = faithful_syncNewChildren[OF l]
  show ?thesis
  proof (cases r1)
    case (Rejected e st)
    with assms part l f1 show ?thesis by (auto simp: syncChildren_def childLoop0_def)
  next
    case (Resolved ls)
    with assms part l have
      "deleteOrphans cfg api (existingPropsMap ls) (c_stats ls) (c_operationCount ls) w1 = (r, w')"
      by (simp add: syncChildren_def childLoop0_def)
    from faithful_seq[OF _ faithful_deleteOrphans[OF this]] f1 Resolved show ?thesis by simp
  qed
qed


lemma faithful_updateExistingBlock:
  assumes "updateExistingBlock this api existing newBlock w = (r, w')"
  shows "faithful api w r w'"
proof -
  define first where "first =
    (if n_text existing \<noteq> p_text newBlock
     then (case await_updateBlock api (n_uid existing) (p_text newBlock) w of
             (Some e, w1) \<Rightarrow> (Some e, w1)
           | (None, w1) \<Rightarrow> (None, delay (mutationDelay (config this)) w1))
     else (None, w))"
  obtain r1 w1 where f: "first = (r1, w1)" by (cases first)
  have f1: "faithful api w r1 w1"
  proof (cases "n_text existing \<noteq> p_text newBlock")
    case False
    with f show ?thesis by (simp add: first_def faithful_refl)
  next
    case True
    obtain r0 w0 where u: "await_updateBlock api (n_uid existing) (p_text newBlock) w = (r0, w0)"
      by (cases "await_updateBlock api (n_uid existing) (p_text newBlock) w")
    from faithful_await_updateBlock[OF u] True f u show ?thesis
      by (cases r0) (auto simp: first_def intro: faithful_then_delay)
  qed
  show ?thesis
  proof (cases r1)
    case (Some e)
    with assms f f1 show ?thesis by (simp add: updateExistingBlock_def first_def[symmetric])
  next
    case None
    show ?thesis
    proof (cases "childrenReconciler this")
      case nocr: None
      with assms f f1 None show ?thesis
        by (simp add: updateExistingBlock_def first_def[symmetric])
    next
      case (Some ccfg)
      show ?thesis
      proof (cases "p_children newBlock")
        case noch: None
        with assms f f1 None Some show ?thesis
          by (simp add: updateExistingBlock_def first_def[symmetric])
      next
        case (Some newChildren)
        obtain r2 w2 where
          s: "syncChildren ccfg api (n_uid existing) (orEmpty (n_children existing)) newChildren w1
                = (r2, w2)"
          by (cases "syncChildren ccfg api (n_uid existing) (orEmpty (n_children existing))
                       newChildren w1")
        from f1 None have f1': "faithful api w None w1" by simp
        note f2 = faithful_seq[OF f1' faithful_syncChildren[OF s]]
        from assms f None \<open>childrenReconciler this = Some ccfg\<close> Some s f2 show ?thesis
          by (cases r2) (simp_all add: updateExistingBlock_def first_def[symmetric])
      qed
    qed
  qed
qed

lemma faithful_reconcileItem:
  assumes "reconcileItem this api parentUid existingMap item ls w = (r, w')"
  shows "faithful api w (rejection r) w'"
proof (cases "map_of existingMap (extractId (config this) item)")
  case None
  obtain r1 w1 where
    c: "createNewBlock api parentUid (buildBlock (config this) item) w = (r1, w1)"
    by (cases "createNewBlock api parentUid (buildBlock (config this) item) w")
  then have "faithful api w r1 w1"
    by (simp add: createNewBlock_def faithful_await_createBlock)
  with assms None c show ?thesis
    by (cases r1) (auto simp: reconcileItem_def Let_def)
next
  case (Some existingNode)
  obtain r1 w1 where
    u: "updateExistingBlock this api existingNode (buildBlock (config this) item) w = (r1, w1)"
    by (cases "updateExistingBlock this api existingNode (buildBlock (config this) item) w")
  from faithful_updateExistingBlock[OF u] assms Some u show ?thesis
    by (cases r1) (auto simp: reconcileItem_def Let_def faithful_refl split: if_splits)
qed

lemma faithful_reconcileItems:
  "reconcileItems this api parentUid existingMap items ls w = (r, w') \<Longrightarrow>
     faithful api w (rejection r) w'"
proof (induction items arbitrary: ls w)
  case Nil
  then show ?case by (auto simp: faithful_refl)
next
  case (Cons item items)
  obtain r1 w1 where s: "reconcileItem this api parentUid existingMap item ls w = (r1, w1)"
    by (cases "reconcileItem this api parentUid existingMap item ls w")
  note f1 = faithful_reconcileItem[OF s]
  show ?case
  proof (cases r1)
    case (Rejected e st)
    with Cons.prems s f1 show ?thesis by auto
  next
    case (Resolved ls1)
    with Cons.prems s have
      "reconcileItems this api parentUid existingMap items
         (ls1\<lparr>operationCount := operationCount ls1 + 1\<rparr>)
         (maybeYieldToMain (config this) (operationCount ls1 + 1) w1) = (r, w')"
      by (simp add: Let_def)
    from faithful_seq[OF faithful_then_maybeYieldToMain Cons.IH[OF this]] f1 Resolved
    show ?thesis by simp
  qed
qed

lemma faithful_removeObsoleteFrom:
  "removeObsoleteFrom cfg api m seen dc oc w = (r, w') \<Longrightarrow> faithful api w (rejection r) w'"
proof (induction m arbitrary: dc oc w)
  case Nil
  then show ?case by (auto simp: faithful_refl)
next
  case (Cons entry m)
  obtain ident node where entry: "entry = (ident, node)" by (cases entry)
  show ?case
  proof (cases "ident \<in> seen \<or> callPreserveWhen cfg node")
    case True
    with Cons.prems entry have "removeObsoleteFrom cfg api m seen dc oc w = (r, w')"
      by (auto split: if_splits)
    then show ?thesis by (rule Cons.IH)
  next
    case False
    obtain r1 w1 where d: "await_deleteBlock api (n_uid node) w = (r1, w1)"
      by (cases "await_deleteBlock api (n_uid node) w")
    note f1 = faithful_await_deleteBlock[OF d]
    show ?thesis
    proof (cases r1)
      case (Some e)
      with Cons.prems entry False d f1 show ?thesis by auto
    next
      case None
      with Cons.prems entry False d have
        "removeObsoleteFrom cfg api m seen (dc + 1) (oc + 1)
           (maybeYieldToMain cfg (oc + 1) (delay (mutationDelay cfg) w1)) = (r, w')"
        by simp
      from faithful_seq[OF faithful_then_maybeYieldToMain[OF faithful_then_delay] Cons.IH[OF this]]
        f1 None
      show ?thesis by simp
    qed
  qed
qed

lemma reconcileItems_rejected:
  "reconcileItems this api parentUid existingMap items ls w = (Rejected e st, w') \<Longrightarrow>
     \<exists>k lsk wk. k < length items \<and>
       reconcileItems this api parentUid existingMap (take k items) ls w = (Resolved lsk, wk) \<and>
       st = stats lsk \<and>
       reconcileItem this api parentUid existingMap (items ! k) lsk wk = (Rejected e st, w')"
proof (induction items arbitrary: ls w)
  case Nil
  then show ?case by simp
next
  case (Cons item items)
  obtain r1 w1 where s: "reconcileItem this api parentUid existingMap item ls w = (r1, w1)"
    by (cases "reconcileItem this api parentUid existingMap item ls w")
  show ?case
  proof (cases r1)
    case (Rejected e1 st1)
    with Cons.prems s have eq: "e1 = e" "st1 = st" "w1 = w'" by simp_all
    from s Rejected eq have "st = stats ls"
      by (auto simp: reconcileItem_def Let_def split: option.splits if_splits prod.splits)
    with s Rejected eq show ?thesis
      by (intro exI[of _ 0] exI[of _ ls] exI[of _ w]) simp
  next
    case (Resolved ls1)
    with Cons.prems s have
      "reconcileItems this api parentUid existingMap items
         (ls1\<lparr>operationCount := operationCount ls1 + 1\<rparr>)
         (maybeYieldToMain (config this) (operationCount ls1 + 1) w1) = (Rejected e st, w')"
      by (simp add: Let_def)
    from Cons.IH[OF this] obtain k lsk wk where
      k: "k < length items"
         "reconcileItems this api parentUid existingMap (take k items)
            (ls1\<lparr>operationCount := operationCount ls1 + 1\<rparr>)
            (maybeYieldToMain (config this) (operationCount ls1 + 1) w1) = (Resolved lsk, wk)"
         "st = stats lsk"
         "reconcileItem this api parentUid existingMap (items ! k) lsk wk = (Rejected e st, w')"
      by blast
    with s Resolved show ?thesis
      by (intro exI[of _ "Suc k"] exI[of _ lsk] exI[of _ wk]) (simp add: Let_def)
  qed
qed

lemma syncNewChildren_rejected:
  "syncNewChildren cfg api parentUid cs ls w = (Rejected e st, w') \<Longrightarrow>
     \<exists>k lsk wk. k < length cs \<and>
       syncNewChildren cfg api parentUid (take k cs) ls w = (Resolved lsk, wk) \<and>
       syncChild cfg api parentUid (cs ! k) lsk wk = (Rejected e st, w')"
proof (induction cs arbitrary: ls w)
  case Nil
  then show ?case by simp
next
  case (Cons c cs)
  obtain r1 w1 where s: "syncChild cfg api parentUid c ls w = (r1, w1)"
    by (cases "syncChild cfg api parentUid c ls w")
  show ?case
  proof (cases r1)
    case (Rejected e1 st1)
    with Cons.prems s have eq: "e1 = e" "st1 = st" "w1 = w'" by simp_all
    with s Rejected show ?thesis
      by (intro exI[of _ 0] exI[of _ ls] exI[of _ w]) simp
  next
    case (Resolved ls1)
    with Cons.prems s have
      "syncNewChildren cfg api parentUid cs (ls1\<lparr>c_operationCount := c_operationCount ls1 + 1\<rparr>)
         (maybeYield (c_operationCount ls1 + 1) DEFAULT_YIELD_BATCH_SIZE w1) = (Rejected e st, w')"
      by (simp add: Let_def)
    from Cons.IH[OF this] obtain k lsk wk where
      k: "k < length cs"
         "syncNewChildren cfg api parentUid (take k cs)
            (ls1\<lparr>c_operationCount := c_operationCount ls1 + 1\<rparr>)
            (maybeYield (c_operationCount ls1 + 1) DEFAULT_YIELD_BATCH_SIZE w1) = (Resolved lsk, wk)"
         "syncChild cfg api parentUid (cs ! k) lsk wk = (Rejected e st, w')"
      by blast
    with s Resolved show ?thesis
      by (intro exI[of _ "Suc k"] exI[of _ lsk] exI[of _ wk]) (simp add: Let_def)
  qed
qed

lemma rejected_run_decomposition:
  "(reconcile this api parentUid items w = (Rejected e st, w') \<longrightarrow>
      (\<exists>done ev. trace w' = trace w @ done @ [ev] \<and> isMutation ev \<and>
         replay api done (backend w) = Inr (backend w') \<and>
         applyEvent api ev (backend w') = Inl e)
    \<and> ((\<exists>k ls wk. k < length items \<and>
           reconcileItems this api parentUid
             (buildExistingMap (config this) (getChildren api (backend w) parentUid))
             (take k items) (loop0 (length items)) w = (Resolved ls, wk) \<and>
           st = stats ls \<and>
           reconcileItem this api parentUid
             (buildExistingMap (config this) (getChildren api (backend w) parentUid))
             (items ! k) ls wk = (Rejected e st, w'))
        \<or> (\<exists>ls w1.
           reconcileItems this api parentUid
             (buildExistingMap (config this) (getChildren api (backend w) parentUid))
             items (loop0 (length items)) w = (Resolved ls, w1) \<and>
           st = stats ls \<and>
           removeObsolete (config this) api
             (buildExistingMap (config this) (getChildren api (backend w) parentUid))
             (seenIds ls) w1 = (Rejected e (), w'))))
 \<and> (syncChildren cfg api parentUid' existingChildren newChildren v = (Rejected e' cst, v') \<longrightarrow>
      (\<exists>done ev. trace v' = trace v @ done @ [ev] \<and> isMutation ev \<and>
         replay api done (backend v) = Inr (backend v') \<and>
         applyEvent api ev (backend v') = Inl e')
    \<and> ((\<exists>k ls vk. k < length newChildren \<and>
           syncNewChildren cfg api parentUid' (take k newChildren)
             (childLoop0 (fst (partitionExisting cfg existingChildren ([], [])))
                         (snd (partitionExisting cfg existingChildren ([], [])))) v
             = (Resolved ls, vk) \<and>
           syncChild cfg api parentUid' (newChildren ! k) ls vk = (Rejected e' cst, v'))
        \<or> (\<exists>ls v1.
           syncNewChildren cfg api parentUid' newChildren
             (childLoop0 (fst (partitionExisting cfg existingChildren ([], [])))
                         (snd (partitionExisting cfg existingChildren ([], [])))) v
             = (Resolved ls, v1) \<and>
           deleteOrphans cfg api (existingPropsMap ls) (c_stats ls) (c_operationCount ls) v1
             = (Rejected e' cst, v'))))"
proof (intro conjI impI)
  let ?M = "buildExistingMap (config this) (getChildren api (backend w) parentUid)"
  assume run: "reconcile this api parentUid items w = (Rejected e st, w')"
  obtain r1 w1 where
    l: "reconcileItems this api parentUid ?M items (loop0 (length items)) w = (r1, w1)"
    by (cases "reconcileItems this api parentUid ?M items (loop0 (length items)) w")
  note f1 = faithful_reconcileItems[OF l]
  have "faithful api w (Some e) w' \<and>
    ((\<exists>k ls wk. k < length items \<and>
           reconcileItems this api parentUid ?M (take k items) (loop0 (length items)) w
             = (Resolved ls, wk) \<and>
           st = stats ls \<and>
           reconcileItem this api parentUid ?M (items ! k) ls wk = (Rejected e st, w'))
        \<or> (\<exists>ls w1.
           reconcileItems this api parentUid ?M items (loop0 (length items)) w = (Resolved ls, w1) \<and>
           st = stats ls \<and>
           removeObsolete (config this) api ?M (seenIds ls) w1 = (Rejected e (), w')))"
  proof (cases r1)
    case (Rejected e1 st1)
    with run l have eq: "e1 = e" "st1 = st" "w1 = w'"
      by (simp_all add: reconcile_def Let_def loop0_def)
    from reconcileItems_rejected[OF l[unfolded Rejected eq]] f1 Rejected eq
    show ?thesis by auto
  next
    case (Resolved ls)
    obtain r2 w2 where d: "removeObsolete (config this) api ?M (seenIds ls) w1 = (r2, w2)"
      by (cases "removeObsolete (config this) api ?M (seenIds ls) w1")
    from run l Resolved d obtain u where r2: "r2 = Rejected e u" "w2 = w'" "st = stats ls"
      by (cases r2) (simp_all add: reconcile_def Let_def loop0_def)
    from d have "faithful api w1 (rejection r2) w2"
      by (simp add: removeObsolete_def faithful_removeObsoleteFrom)
    with f1 Resolved r2 have "faithful api w (Some e) w'"
      using faithful_seq[of api w w1 "Some e" w'] by simp
    with l Resolved d r2 show ?thesis by auto
  qed
  then show "\<exists>done ev. trace w' = trace w @ done @ [ev] \<and> isMutation ev \<and>
         replay api done (backend w) = Inr (backend w') \<and>
         applyEvent api ev (backend w') = Inl e"
    and "(\<exists>k ls wk. k < length items \<and>
           reconcileItems this api parentUid ?M (take k items) (loop0 (length items)) w
             = (Resolved ls, wk) \<and>
           st = stats ls \<and>
           reconcileItem this api parentUid ?M (items ! k) ls wk = (Rejected e st, w'))
        \<or> (\<exists>ls w1.
           reconcileItems this api parentUid ?M items (loop0 (length items)) w = (Resolved ls, w1) \<and>
           st = stats ls \<and>
           removeObsolete (config this) api ?M (seenIds ls) w1 = (Rejected e (), w'))"
    by (auto simp: faithful_def)
next
  let ?P = "partitionExisting cfg existingChildren ([], [])"
  assume run: "syncChildren cfg api parentUid' existingChildren newChildren v = (Rejected e' cst, v')"
  obtain r1 v1 where
    l: "syncNewChildren cfg api parentUid' newChildren (childLoop0 (fst ?P) (snd ?P)) v = (r1, v1)"
    by (cases "syncNewChildren cfg api parentUid' newChildren (childLoop0 (fst ?P) (snd ?P)) v")
  from faithful_syncChildren[OF run]
  show "\<exists>done ev. trace v' = trace v @ done @ [ev] \<and> isMutation ev \<and>
         replay api done (backend v) = Inr (backend v') \<and>
         applyEvent api ev (backend v') = Inl e'"
    by (auto simp: faithful_def)
  show "(\<exists>k ls vk. k < length newChildren \<and>
           syncNewChildren cfg api parentUid' (take k newChildren) (childLoop0 (fst ?P) (snd ?P)) v
             = (Resolved ls, vk) \<and>
           syncChild cfg api parentUid' (newChildren ! k) ls vk = (Rejected e' cst, v'))
        \<or> (\<exists>ls v1.
           syncNewChildren cfg api parentUid' newChildren (childLoop0 (fst ?P) (snd ?P)) v
             = (Resolved ls, v1) \<and>
           deleteOrphans cfg api (existingPropsMap ls) (c_stats ls) (c_operationCount ls) v1
             = (Rejected e' cst, v'))"
  proof (cases r1)
    case (Rejected e1 st1)
    with run l have eq: "e1 = e'" "st1 = cst" "v1 = v'"
      by (simp_all add: syncChildren_def Let_def childLoop0_def split_beta)
    from syncNewChildren_rejected[OF l[unfolded Rejected eq]] show ?thesis by blast
  next
    case (Resolved ls)
    with run l have
      "deleteOrphans cfg api (existingPropsMap ls) (c_stats ls) (c_operationCount ls) v1
         = (Rejected e' cst, v')"
      by (simp add: syncChildren_def Let_def childLoop0_def split_beta)
    with l Resolved show ?thesis by blast
  qed
qed

lemma faithful_reconcile:
  assumes "reconcile this api parentUid items w = (r, w')"
  shows "faithful api w (rejection r) w'"
proof -
  let ?M = "buildExistingMap (config this) (getChildren api (backend w) parentUid)"
  obtain r1 w1 where
    l: "reconcileItems this api parentUid ?M items (loop0 (length items)) w = (r1, w1)"
    by (cases "reconcileItems this api parentUid ?M items (loop0 (length items)) w")
  note f1 = faithful_reconcileItems[OF l]
  show ?thesis
  proof (cases r1)
    case (Rejected e st)
    with assms l f1 show ?thesis by (auto simp: reconcile_def Let_def)
  next
    case (Resolved ls)
    obtain r2 w2 where d: "removeObsolete (config this) api ?M (seenIds ls) w1 = (r2, w2)"
      by (cases "removeObsolete (config this) api ?M (seenIds ls) w1")
    from d have "faithful api w1 (rejection r2) w2"
      by (simp add: removeObsolete_def faithful_removeObsoleteFrom)
    with f1 Resolved have "faithful api w (rejection r2) w2"
      using faithful_seq[of api w w1 "rejection r2" w2] by simp
    with assms l Resolved d show ?thesis
      by (cases r2) (auto simp: reconcile_def Let_def)
  qed
qed

lemma faithful_rejects:
  assumes "faithful api w (rejection r) w'"
    and "trace w' = trace w @ evs"
    and "replay api evs (backend w) = Inl e"
  shows "(\<exists>st. r = Rejected e st)
       \<and> (\<exists>done ev. evs = done @ [ev] \<and> isMutation ev \<and>
            replay api done (backend w) = Inr (backend w') \<and>
            applyEvent api ev (backend w') = Inl e)"
proof (cases r)
  case (Resolved a)
  with assms(1) obtain evs' where
    "trace w' = trace w @ evs'" "replay api evs' (backend w) = Inr (backend w')"
    by (auto simp: faithful_def)
  with assms(2,3) show ?thesis by simp
next
  case (Rejected e1 st)
  with assms(1) obtain evs' pre ev where
    e: "trace w' = trace w @ evs'" "evs' = pre @ [ev]" "isMutation ev"
       "replay api pre (backend w) = Inr (backend w')"
       "applyEvent api ev (backend w') = Inl e1"
    by (auto simp: faithful_def)
  with assms(2) have evs: "evs = pre @ [ev]" by simp
  with e(4,5) have "replay api evs (backend w) = Inl e1"
    by (simp add: replay_append)
  with assms(3) have "e1 = e" by simp
  with Rejected evs e(3,4,5) show ?thesis by blast
qed

text \<open>
  C8. When the adapter rejects, with \<open>e\<close>, one of the mutations that a call of \<open>reconcile\<close>
  or \<open>syncChildren\<close> issues (replaying the issued events on the backend the call started
  with stops at a rejection with \<open>e\<close>): the call rejects, with this very \<open>e\<close> (no wrapping,
  nothing swallowed); the rejected mutation is the last event of the call (no retry, nothing
  issued after it); the backend is the one the mutations issued before it, all resolved, have
  produced (no rollback). The stats object holds what was counted for the items (children)
  completed before the failing one; a rejection while the obsolete blocks are removed leaves
  it as the item loop left it, \<open>deleted\<close> not yet assigned.
\<close>

theorem rejection_propagates_without_rollback:
  "(reconcile this api parentUid items w = (r, w') \<and> trace w' = trace w @ evs \<and>
    replay api evs (backend w) = Inl e \<longrightarrow>
      (\<exists>done ev. evs = done @ [ev] \<and> isMutation ev \<and>
         replay api done (backend w) = Inr (backend w') \<and>
         applyEvent api ev (backend w') = Inl e)
    \<and> (\<exists>st. r = Rejected e st \<and>
         ((\<exists>k ls wk. k < length items \<and>
             reconcileItems this api parentUid
               (buildExistingMap (config this) (getChildren api (backend w) parentUid))
               (take k items) (loop0 (length items)) w = (Resolved ls, wk) \<and>
             st = stats ls \<and>
             reconcileItem this api parentUid
               (buildExistingMap (config this) (getChildren api (backend w) parentUid))
               (items ! k) ls wk = (Rejected e st, w'))
          \<or> (\<exists>ls w1.
             reconcileItems this api parentUid
               (buildExistingMap (config this) (getChildren api (backend w) parentUid))
               items (loop0 (length items)) w = (Resolved ls, w1) \<and>
             st = stats ls \<and>
             removeObsolete (config this) api
               (buildExistingMap (config this) (getChildren api (backend w) parentUid))
               (seenIds ls) w1 = (Rejected e (), w')))))
 \<and> (syncChildren cfg api parentUid' existingChildren newChildren v = (r', v') \<and>
    trace v' = trace v @ evs' \<and> replay api evs' (backend v) = Inl e' \<longrightarrow>
      (\<exists>done ev. evs' = done @ [ev] \<and> isMutation ev \<and>
         replay api done (backend v) = Inr (backend v') \<and>
         applyEvent api ev (backend v') = Inl e')
    \<and> (\<exists>cst. r' = Rejected e' cst \<and>
         ((\<exists>k ls vk. k < length newChildren \<and>
             syncNewChildren cfg api parentUid' (take k newChildren)
               (childLoop0 (fst (partitionExisting cfg existingChildren ([], [])))
                           (snd (partitionExisting cfg existingChildren ([], [])))) v
               = (Resolved ls, vk) \<and>
             syncChild cfg api parentUid' (newChildren ! k) ls vk = (Rejected e' cst, v'))
          \<or> (\<exists>ls v1.
             syncNewChildren cfg api parentUid' newChildren
               (childLoop0 (fst (partitionExisting cfg existingChildren ([], [])))
                           (snd (partitionExisting cfg existingChildren ([], [])))) v
               = (Resolved ls, v1) \<and>
             deleteOrphans cfg api (existingPropsMap ls) (c_stats ls) (c_operationCount ls) v1
               = (Rejected e' cst, v')))))"
proof (intro conjI impI)
  assume a: "reconcile this api parentUid items w = (r, w') \<and> trace w' = trace w @ evs \<and>
    replay api evs (backend w) = Inl e"
  then have run: "reconcile this api parentUid items w = (r, w')"
    and tr: "trace w' = trace w @ evs" and rp: "replay api evs (backend w) = Inl e"
    by simp_all
  note f = faithful_rejects[OF faithful_reconcile[OF run] tr rp]
  from f show "\<exists>done ev. evs = done @ [ev] \<and> isMutation ev \<and>
         replay api done (backend w) = Inr (backend w') \<and>
         applyEvent api ev (backend w') = Inl e"
    by simp
  from f obtain st where st: "r = Rejected e st" by blast
  from run st have run': "reconcile this api parentUid items w = (Rejected e st, w')" by simp
  note d = conjunct2[OF mp[OF conjunct1[OF
      rejected_run_decomposition[of this api parentUid items w e st w']] run']]
  from d st
  show "\<exists>st. r = Rejected e st \<and>
         ((\<exists>k ls wk. k < length items \<and>
             reconcileItems this api parentUid
               (buildExistingMap (config this) (getChildren api (backend w) parentUid))
               (take k items) (loop0 (length items)) w = (Resolved ls, wk) \<and>
             st = stats ls \<and>
             reconcileItem this api parentUid
               (buildExistingMap (config this) (getChildren api (backend w) parentUid))
               (items ! k) ls wk = (Rejected e st, w'))
          \<or> (\<exists>ls w1.
             reconcileItems this api parentUid
               (buildExistingMap (config this) (getChildren api (backend w) parentUid))
               items (loop0 (length items)) w = (Resolved ls, w1) \<and>
             st = stats ls \<and>
             removeObsolete (config this) api
               (buildExistingMap (config this) (getChildren api (backend w) parentUid))
               (seenIds ls) w1 = (Rejected e (), w')))"
    by (intro exI[of _ st]) simp
next
  assume a: "syncChildren cfg api parentUid' existingChildren newChildren v = (r', v') \<and>
    trace v' = trace v @ evs' \<and> replay api evs' (backend v) = Inl e'"
  then have run: "syncChildren cfg api parentUid' existingChildren newChildren v = (r', v')"
    and tr: "trace v' = trace v @ evs'" and rp: "replay api evs' (backend v) = Inl e'"
    by simp_all
  note f = faithful_rejects[OF faithful_syncChildren[OF run] tr rp]
  from f show "\<exists>done ev. evs' = done @ [ev] \<and> isMutation ev \<and>
         replay api done (backend v) = Inr (backend v') \<and>
         applyEvent api ev (backend v') = Inl e'"
    by simp
  from f obtain cst where st: "r' = Rejected e' cst" by blast
  from run st have run':
    "syncChildren cfg api parentUid' existingChildren newChildren v = (Rejected e' cst, v')"
    by simp
  note d = conjunct2[OF mp[OF conjunct2[OF
      rejected_run_decomposition[where cfg = cfg and api = api and parentUid' = parentUid'
      and existingChildren = existingChildren and newChildren = newChildren and v = v
      and e' = e' and cst = cst and v' = v']] run']]
  from d st
  show "\<exists>cst. r' = Rejected e' cst \<and>
         ((\<exists>k ls vk. k < length newChildren \<and>
             syncNewChildren cfg api parentUid' (take k newChildren)
               (childLoop0 (fst (partitionExisting cfg existingChildren ([], [])))
                           (snd (partitionExisting cfg existingChildren ([], [])))) v
               = (Resolved ls, vk) \<and>
             syncChild cfg api parentUid' (newChildren ! k) ls vk = (Rejected e' cst, v'))
          \<or> (\<exists>ls v1.
             syncNewChildren cfg api parentUid' newChildren
               (childLoop0 (fst (partitionExisting cfg existingChildren ([], [])))
                           (snd (partitionExisting cfg existingChildren ([], [])))) v
               = (Resolved ls, v1) \<and>
             deleteOrphans cfg api (existingPropsMap ls) (c_stats ls) (c_operationCount ls) v1
               = (Rejected e' cst, v')))"
    by (intro exI[of _ cst]) simp
qed

theorem rejection_propagates_without_rollback_witness:
  "reconcile testReconciler budgetAdapter ''page''
     [(''1'', BlockPayload ''1 Updated Task'' None), (''2'', BlockPayload ''2 New Task'' None)]
     \<lparr>backend = ([RoamNode ''1 Old Task'' ''uid-1'' None], 1), trace = []\<rparr>
   = (Rejected ''rejected'' \<lparr>total = 2, skipped = 0, created = 0, updated = 1, deleted = 0\<rparr>,
      \<lparr>backend = ([RoamNode ''1 Old Task'' ''uid-1'' None], 0),
       trace = [UpdateBlock ''uid-1'' ''1 Updated Task'', Delay 0,
                CreateBlock ''page'' (BlockPayload ''2 New Task'' None)]\<rparr>)
 \<and> replay budgetAdapter
       [UpdateBlock ''uid-1'' ''1 Updated Task'', Delay 0,
        CreateBlock ''page'' (BlockPayload ''2 New Task'' None)]
       ([RoamNode ''1 Old Task'' ''uid-1'' None], 1) = Inl ''rejected''
 \<and> (\<exists>done ev.
        [UpdateBlock ''uid-1'' ''1 Updated Task'', Delay 0,
         CreateBlock ''page'' (BlockPayload ''2 New Task'' None)] = done @ [ev] \<and> isMutation ev \<and>
        replay budgetAdapter done ([RoamNode ''1 Old Task'' ''uid-1'' None], 1)
          = Inr ([RoamNode ''1 Old Task'' ''uid-1'' None], 0) \<and>
        applyEvent budgetAdapter ev ([RoamNode ''1 Old Task'' ''uid-1'' None], 0) = Inl ''rejected'')
 \<and> (\<exists>st. Rejected ''rejected'' \<lparr>total = 2, skipped = 0, created = 0, updated = 1, deleted = 0\<rparr>
         = (Rejected ''rejected'' st :: (string, SyncStats, SyncStats) outcome))
 \<and> syncChildren testChildConfig budgetAdapter ''parent-uid''
      [RoamNode ''priority:: high'' ''c1'' None]
      [BlockPayload ''priority:: urgent'' None, BlockPayload ''due:: today'' None]
      \<lparr>backend = ([RoamNode ''priority:: high'' ''c1'' None], 1), trace = []\<rparr>
   = (Rejected ''rejected'' \<lparr>c_skipped = 0, c_updated = 1, c_created = 0, c_deleted = 0\<rparr>,
      \<lparr>backend = ([RoamNode ''priority:: high'' ''c1'' None], 0),
       trace = [UpdateBlock ''c1'' ''priority:: urgent'', Delay 0,
                CreateBlock ''parent-uid'' (BlockPayload ''due:: today'' None)]\<rparr>)
 \<and> replay budgetAdapter
       [UpdateBlock ''c1'' ''priority:: urgent'', Delay 0,
        CreateBlock ''parent-uid'' (BlockPayload ''due:: today'' None)]
       ([RoamNode ''priority:: high'' ''c1'' None], 1) = Inl ''rejected''
 \<and> (\<exists>done ev.
        [UpdateBlock ''c1'' ''priority:: urgent'', Delay 0,
         CreateBlock ''parent-uid'' (BlockPayload ''due:: today'' None)] = done @ [ev] \<and>
        isMutation ev \<and>
        replay budgetAdapter done ([RoamNode ''priority:: high'' ''c1'' None], 1)
          = Inr ([RoamNode ''priority:: high'' ''c1'' None], 0) \<and>
        applyEvent budgetAdapter ev ([RoamNode ''priority:: high'' ''c1'' None], 0)
          = Inl ''rejected'')
 \<and> (\<exists>cst. Rejected ''rejected'' \<lparr>c_skipped = 0, c_updated = 1, c_created = 0, c_deleted = 0\<rparr>
         = (Rejected ''rejected'' cst :: (string, ChildSyncStats, ChildSyncStats) outcome))"
proof -
  let ?w = "\<lparr>backend = ([RoamNode ''1 Old Task'' ''uid-1'' None], 1 :: nat), trace = []\<rparr>"
  let ?evs = "[UpdateBlock ''uid-1'' ''1 Updated Task'', Delay 0,
               CreateBlock ''page'' (BlockPayload ''2 New Task'' None)]"
  let ?w' = "\<lparr>backend = ([RoamNode ''1 Old Task'' ''uid-1'' None], 0 :: nat), trace = ?evs\<rparr>"
  let ?r = "Rejected ''rejected'' \<lparr>total = 2, skipped = 0, created = 0, updated = 1, deleted = 0\<rparr>
              :: (string, SyncStats, SyncStats) outcome"
  have run: "reconcile testReconciler budgetAdapter ''page''
     [(''1'', BlockPayload ''1 Updated Task'' None), (''2'', BlockPayload ''2 New Task'' None)] ?w
     = (?r, ?w')"
    by code_simp
  have tr: "trace ?w' = trace ?w @ ?evs" by simp
  have rp: "replay budgetAdapter ?evs (backend ?w) = Inl ''rejected''" by code_simp
  let ?v = "\<lparr>backend = ([RoamNode ''priority:: high'' ''c1'' None], 1 :: nat), trace = []\<rparr>"
  let ?cevs = "[UpdateBlock ''c1'' ''priority:: urgent'', Delay 0,
                CreateBlock ''parent-uid'' (BlockPayload ''due:: today'' None)]"
  let ?v' = "\<lparr>backend = ([RoamNode ''priority:: high'' ''c1'' None], 0 :: nat), trace = ?cevs\<rparr>"
  let ?r' = "Rejected ''rejected'' \<lparr>c_skipped = 0, c_updated = 1, c_created = 0, c_deleted = 0\<rparr>
              :: (string, ChildSyncStats, ChildSyncStats) outcome"
  have crun: "syncChildren testChildConfig budgetAdapter ''parent-uid''
      [RoamNode ''priority:: high'' ''c1'' None]
      [BlockPayload ''priority:: urgent'' None, BlockPayload ''due:: today'' None] ?v
     = (?r', ?v')"
    by code_simp
  have ctr: "trace ?v' = trace ?v @ ?cevs" by simp
  have crp: "replay budgetAdapter ?cevs (backend ?v) = Inl ''rejected''" by code_simp
  note inst = rejection_propagates_without_rollback
    [where this = testReconciler and api = budgetAdapter and parentUid = "''page''"
       and items = "[(''1'', BlockPayload ''1 Updated Task'' None),
                     (''2'', BlockPayload ''2 New Task'' None)]"
       and w = ?w and r = ?r and w' = ?w' and evs = ?evs and e = "''rejected''"
       and cfg = testChildConfig and parentUid' = "''parent-uid''"
       and existingChildren = "[RoamNode ''priority:: high'' ''c1'' None]"
       and newChildren = "[BlockPayload ''priority:: urgent'' None,
                           BlockPayload ''due:: today'' None]"
       and v = ?v and r' = ?r' and v' = ?v' and evs' = ?cevs and e' = "''rejected''"]
  from conjunct1[OF inst] run tr rp
  have top: "(\<exists>done ev. ?evs = done @ [ev] \<and> isMutation ev \<and>
        replay budgetAdapter done ([RoamNode ''1 Old Task'' ''uid-1'' None], 1)
          = Inr ([RoamNode ''1 Old Task'' ''uid-1'' None], 0) \<and>
        applyEvent budgetAdapter ev ([RoamNode ''1 Old Task'' ''uid-1'' None], 0) = Inl ''rejected'')
     \<and> (\<exists>st. ?r = Rejected ''rejected'' st)"
    by simp
  from conjunct2[OF inst] crun ctr crp
  have child: "(\<exists>done ev. ?cevs = done @ [ev] \<and> isMutation ev \<and>
        replay budgetAdapter done ([RoamNode ''priority:: high'' ''c1'' None], 1)
          = Inr ([RoamNode ''priority:: high'' ''c1'' None], 0) \<and>
        applyEvent budgetAdapter ev ([RoamNode ''priority:: high'' ''c1'' None], 0)
          = Inl ''rejected'')
     \<and> (\<exists>cst. ?r' = Rejected ''rejected'' cst)"
    by simp
  from run rp top crun crp child show ?thesis by simp
qed

subsection \<open>What a pass can touch\<close>

lemma confinedBy_refl: "confinedBy P w w"
  by (simp add: confinedBy_def)

lemma confinedBy_trans: "confinedBy P w w1 \<Longrightarrow> confinedBy P w1 w2 \<Longrightarrow> confinedBy P w w2"
  unfolding confinedBy_def
proof (elim exE conjE)
  fix xs ys
  assume "trace w1 = trace w @ xs" "list_all P xs" "trace w2 = trace w1 @ ys" "list_all P ys"
  then show "\<exists>evs. trace w2 = trace w @ evs \<and> list_all P evs"
    by (intro exI[of _ "xs @ ys"]) simp
qed

lemma confinedBy_mono:
  "confinedBy P w w' \<Longrightarrow> (\<And>ev. P ev \<Longrightarrow> Q ev) \<Longrightarrow> confinedBy Q w w'"
  unfolding confinedBy_def list_all_iff by blast

lemma confinedBy_event: "trace w1 = trace w @ [ev] \<Longrightarrow> P ev \<Longrightarrow> confinedBy P w w1"
  by (simp add: confinedBy_def)

lemma confinedBy_then_delay:
  "confinedBy P w w1 \<Longrightarrow> P (Delay ms) \<Longrightarrow> confinedBy P w (delay ms w1)"
  by (erule confinedBy_trans) (simp add: confinedBy_def)

lemma confinedBy_then_maybeYield:
  "confinedBy P w w1 \<Longrightarrow> P YieldToMain \<Longrightarrow> confinedBy P w (maybeYield n b w1)"
  by (erule confinedBy_trans) (simp add: confinedBy_def)

lemma confinedBy_then_maybeYieldToMain:
  "confinedBy P w w1 \<Longrightarrow> P YieldToMain \<Longrightarrow> confinedBy P w (maybeYieldToMain cfg n w1)"
  by (erule confinedBy_trans) (simp add: confinedBy_def)

lemma confinedBy_deleteSpecialBlocks:
  "deleteSpecialBlocks cfg api bs st w = (r, w') \<Longrightarrow> n_uid ` set bs \<subseteq> special \<Longrightarrow>
     confinedBy (childAllowed parentUid keyed special) w w'"
proof (induction bs arbitrary: st w)
  case Nil
  then show ?case by (auto simp: confinedBy_refl)
next
  case (Cons b bs)
  obtain r1 w1 where d: "await_deleteBlock api (n_uid b) w = (r1, w1)"
    by (cases "await_deleteBlock api (n_uid b) w")
  from Cons.prems(2) have
    c1: "confinedBy (childAllowed parentUid keyed special) w w1"
    by (intro confinedBy_event[OF await_deleteBlock_trace[OF d]]) simp
  show ?case
  proof (cases r1)
    case (Some e)
    with Cons.prems d c1 show ?thesis by auto
  next
    case None
    with Cons.prems d have
      "deleteSpecialBlocks cfg api bs (st\<lparr>c_deleted := c_deleted st + 1\<rparr>)
         (delay (childMutationDelay cfg) w1) = (r, w')"
      by simp
    from Cons.IH[OF this] Cons.prems(2)
    have "confinedBy (childAllowed parentUid keyed special) (delay (childMutationDelay cfg) w1) w'"
      by simp
    moreover have "confinedBy (childAllowed parentUid keyed special) w
                     (delay (childMutationDelay cfg) w1)"
      by (rule confinedBy_then_delay[OF c1]) simp
    ultimately show ?thesis by (blast intro: confinedBy_trans)
  qed
qed

lemma confinedBy_syncChild:
  assumes "syncChild cfg api parentUid newChild ls w = (r, w')"
    and "n_uid ` snd ` set (existingPropsMap ls) \<subseteq> keyed"
    and "n_uid ` set (existingSpecialBlocks ls) \<subseteq> special"
  shows "confinedBy (childAllowed parentUid keyed special) w w'"
proof (cases "truthy (extractKey cfg (p_text newChild))")
  case (Some key)
  show ?thesis
  proof (cases "map_of (existingPropsMap ls) key")
    case None
    obtain r1 w1 where c: "await_createBlock api parentUid newChild w = (r1, w1)"
      by (cases "await_createBlock api parentUid newChild w")
    have "confinedBy (childAllowed parentUid keyed special) w w1"
      by (intro confinedBy_event[OF await_createBlock_trace[OF c]]) simp
    with assms(1) Some None c show ?thesis
      by (cases r1) (auto simp: syncChild_def Let_def intro: confinedBy_then_delay)
  next
    case (Some existing)
    then have "existing \<in> snd ` set (existingPropsMap ls)"
      by (force dest: map_of_SomeD)
    with assms(2) have k: "n_uid existing \<in> keyed" by auto
    obtain r1 w1 where
      u: "await_updateBlock api (n_uid existing) (p_text newChild) w = (r1, w1)"
      by (cases "await_updateBlock api (n_uid existing) (p_text newChild) w")
    from k have "confinedBy (childAllowed parentUid keyed special) w w1"
      by (intro confinedBy_event[OF await_updateBlock_trace[OF u]]) simp
    with assms(1) \<open>truthy (extractKey cfg (p_text newChild)) = Some key\<close> Some u show ?thesis
      by (cases r1)
         (auto simp: syncChild_def Let_def confinedBy_refl split: if_splits
               intro: confinedBy_then_delay)
  qed
next
  case None
  show ?thesis
  proof (cases "callIsSpecialBlock cfg (p_text newChild)")
    case False
    with assms(1) None show ?thesis by (auto simp: syncChild_def Let_def confinedBy_refl)
  next
    case True
    obtain r1 w1 where
      d: "deleteSpecialBlocks cfg api (existingSpecialBlocks ls) (c_stats ls) w = (r1, w1)"
      by (cases "deleteSpecialBlocks cfg api (existingSpecialBlocks ls) (c_stats ls) w")
    note cd = confinedBy_deleteSpecialBlocks[OF d assms(3), of parentUid keyed]
    show ?thesis
    proof (cases r1)
      case (Rejected e st1)
      with assms(1) None True d cd show ?thesis by (auto simp: syncChild_def Let_def)
    next
      case (Resolved st1)
      obtain r2 w2 where c: "await_createBlock api parentUid newChild w1 = (r2, w2)"
        by (cases "await_createBlock api parentUid newChild w1")
      have "confinedBy (childAllowed parentUid keyed special) w1 w2"
        by (intro confinedBy_event[OF await_createBlock_trace[OF c]]) simp
      with cd have "confinedBy (childAllowed parentUid keyed special) w w2"
        by (rule confinedBy_trans)
      with assms(1) None True d Resolved c show ?thesis
        by (cases r2) (auto simp: syncChild_def Let_def intro: confinedBy_then_delay)
    qed
  qed
qed

lemma syncChild_state_shrinks:
  assumes "syncChild cfg api parentUid newChild ls w = (Resolved ls', w')"
  shows "set (existingPropsMap ls') \<subseteq> set (existingPropsMap ls)
       \<and> set (existingSpecialBlocks ls') \<subseteq> set (existingSpecialBlocks ls)"
proof (cases "truthy (extractKey cfg (p_text newChild))")
  case None
  with assms show ?thesis
    by (auto simp: syncChild_def Let_def split: if_splits prod.splits outcome.splits option.splits)
next
  case (Some key)
  from syncChild_keyed(1,2)[OF Some assms] show ?thesis
    by (auto simp: AList.delete_eq)
qed

lemma confinedBy_syncNewChildren:
  "syncNewChildren cfg api parentUid cs ls w = (r, w') \<Longrightarrow>
   n_uid ` snd ` set (existingPropsMap ls) \<subseteq> keyed \<Longrightarrow>
   n_uid ` set (existingSpecialBlocks ls) \<subseteq> special \<Longrightarrow>
     confinedBy (childAllowed parentUid keyed special) w w'
     \<and> (\<forall>ls'. r = Resolved ls' \<longrightarrow> set (existingPropsMap ls') \<subseteq> set (existingPropsMap ls))"
proof (induction cs arbitrary: ls w)
  case Nil
  then show ?case by (auto simp: confinedBy_refl)
next
  case (Cons c cs)
  obtain r1 w1 where s: "syncChild cfg api parentUid c ls w = (r1, w1)"
    by (cases "syncChild cfg api parentUid c ls w")
  note c1 = confinedBy_syncChild[OF s Cons.prems(2,3)]
  show ?case
  proof (cases r1)
    case (Rejected e st)
    with Cons.prems s c1 show ?thesis by auto
  next
    case (Resolved ls1)
    let ?ls = "ls1\<lparr>c_operationCount := c_operationCount ls1 + 1\<rparr>"
    let ?w = "maybeYield (c_operationCount ls1 + 1) DEFAULT_YIELD_BATCH_SIZE w1"
    from Cons.prems s Resolved have rest: "syncNewChildren cfg api parentUid cs ?ls ?w = (r, w')"
      by (simp add: Let_def)
    from syncChild_state_shrinks[OF s[unfolded Resolved]] have
      sub: "set (existingPropsMap ?ls) \<subseteq> set (existingPropsMap ls)"
           "set (existingSpecialBlocks ?ls) \<subseteq> set (existingSpecialBlocks ls)"
      by simp_all
    with Cons.prems(2,3) have
      k: "n_uid ` snd ` set (existingPropsMap ?ls) \<subseteq> keyed" and
      sp: "n_uid ` set (existingSpecialBlocks ?ls) \<subseteq> special"
      by blast+
    from Cons.IH[OF rest k sp] have
      c2: "confinedBy (childAllowed parentUid keyed special) ?w w'" and
      m: "\<forall>ls'. r = Resolved ls' \<longrightarrow> set (existingPropsMap ls') \<subseteq> set (existingPropsMap ?ls)"
      by simp_all
    have "confinedBy (childAllowed parentUid keyed special) w ?w"
      by (rule confinedBy_then_maybeYield[OF c1]) simp
    with c2 m sub(1) show ?thesis by (blast intro: confinedBy_trans)
  qed
qed

lemma confinedBy_deleteOrphans:
  "deleteOrphans cfg api m st oc w = (r, w') \<Longrightarrow> n_uid ` snd ` set m \<subseteq> keyed \<Longrightarrow>
     confinedBy (childAllowed parentUid keyed special) w w'"
proof (induction m arbitrary: st oc w)
  case Nil
  then show ?case by (auto simp: confinedBy_refl)
next
  case (Cons entry m)
  obtain key node where entry: "entry = (key, node)" by (cases entry)
  let ?P = "childAllowed parentUid keyed special"
  obtain r1 w1 where
    d: "await_deleteBlock api (n_uid node) (delay (childMutationDelay cfg) w) = (r1, w1)"
    by (cases "await_deleteBlock api (n_uid node) (delay (childMutationDelay cfg) w)")
  from Cons.prems(2) entry have "?P (DeleteBlock (n_uid node))" by auto
  then have "confinedBy ?P (delay (childMutationDelay cfg) w) w1"
    by (intro confinedBy_event[OF await_deleteBlock_trace[OF d]])
  moreover have "confinedBy ?P w (delay (childMutationDelay cfg) w)"
    by (rule confinedBy_then_delay[OF confinedBy_refl]) simp
  ultimately have c1: "confinedBy ?P w w1" by (blast intro: confinedBy_trans)
  show ?case
  proof (cases r1)
    case (Some e)
    with Cons.prems entry d c1 show ?thesis by auto
  next
    case None
    with Cons.prems entry d have
      rest: "deleteOrphans cfg api m (st\<lparr>c_deleted := c_deleted st + 1\<rparr>) (oc + 1)
         (maybeYield (oc + 1) DEFAULT_YIELD_BATCH_SIZE w1) = (r, w')"
      by simp
    from Cons.prems(2) have "n_uid ` snd ` set m \<subseteq> keyed" by auto
    from Cons.IH[OF rest this]
    have "confinedBy ?P (maybeYield (oc + 1) DEFAULT_YIELD_BATCH_SIZE w1) w'" .
    moreover have "confinedBy ?P w (maybeYield (oc + 1) DEFAULT_YIELD_BATCH_SIZE w1)"
      by (rule confinedBy_then_maybeYield[OF c1]) simp
    ultimately show ?thesis by (blast intro: confinedBy_trans)
  qed
qed

lemma values_update: "snd ` set (AList.update k v m) \<subseteq> insert v (snd ` set m)"
  by (induction m) auto

lemma partitionExisting_values:
  "partitionExisting cfg cs (pm, sp) = (pm', sp') \<Longrightarrow>
     snd ` set pm' \<subseteq> snd ` set pm \<union> keyedChildren cfg cs \<and>
     set sp' \<subseteq> set sp \<union> specialChildren cfg cs"
proof (induction cs arbitrary: pm sp)
  case Nil
  then show ?case by simp
next
  case (Cons c cs)
  have mono: "keyedChildren cfg cs \<subseteq> keyedChildren cfg (c # cs)"
    "specialChildren cfg cs \<subseteq> specialChildren cfg (c # cs)"
    by (auto simp: keyedChildren_def specialChildren_def)
  show ?case
  proof (cases "truthy (extractKey cfg (n_text c))")
    case None
    show ?thesis
    proof (cases "callIsSpecialBlock cfg (n_text c)")
      case True
      with Cons.prems None have "partitionExisting cfg cs (pm, sp @ [c]) = (pm', sp')" by simp
      from Cons.IH[OF this] mono None True show ?thesis
        by (auto simp: specialChildren_def)
    next
      case False
      with Cons.prems None have "partitionExisting cfg cs (pm, sp) = (pm', sp')" by simp
      from Cons.IH[OF this] mono show ?thesis by blast
    qed
  next
    case (Some k)
    with Cons.prems have "partitionExisting cfg cs (AList.update k c pm, sp) = (pm', sp')"
      by simp
    from Cons.IH[OF this] have
      "snd ` set pm' \<subseteq> snd ` set (AList.update k c pm) \<union> keyedChildren cfg cs"
      "set sp' \<subseteq> set sp \<union> specialChildren cfg cs"
      by simp_all
    moreover have "c \<in> keyedChildren cfg (c # cs)"
      using Some by (simp add: keyedChildren_def)
    ultimately show ?thesis
      using values_update[of k c pm] mono by blast
  qed
qed

lemma confinedBy_syncChildren:
  assumes "syncChildren cfg api parentUid existingChildren newChildren w = (r, w')"
  shows "confinedBy (childAllowed parentUid (n_uid ` keyedChildren cfg existingChildren)
                       (n_uid ` specialChildren cfg existingChildren)) w w'"
proof -
  let ?P = "childAllowed parentUid (n_uid ` keyedChildren cfg existingChildren)
              (n_uid ` specialChildren cfg existingChildren)"
  obtain pm sp where part: "partitionExisting cfg existingChildren ([], []) = (pm, sp)"
    by (cases "partitionExisting cfg existingChildren ([], [])")
  from partitionExisting_values[OF part] have
    k: "n_uid ` snd ` set pm \<subseteq> n_uid ` keyedChildren cfg existingChildren" and
    s: "n_uid ` set sp \<subseteq> n_uid ` specialChildren cfg existingChildren"
    by auto
  let ?ls0 = "\<lparr>existingPropsMap = pm, existingSpecialBlocks = sp,
           c_stats = \<lparr>c_skipped = 0, c_updated = 0, c_created = 0, c_deleted = 0\<rparr>,
           c_operationCount = 0\<rparr>"
  obtain r1 w1 where l: "syncNewChildren cfg api parentUid newChildren ?ls0 w = (r1, w1)"
    by (cases "syncNewChildren cfg api parentUid newChildren ?ls0 w")
  from confinedBy_syncNewChildren[OF l, of "n_uid ` keyedChildren cfg existingChildren"
      "n_uid ` specialChildren cfg existingChildren"] k s
  have c1: "confinedBy ?P w w1" and
    m: "\<forall>ls'. r1 = Resolved ls' \<longrightarrow> set (existingPropsMap ls') \<subseteq> set pm"
    by simp_all
  show ?thesis
  proof (cases r1)
    case (Rejected e st)
    with assms part l c1 show ?thesis by (auto simp: syncChildren_def childLoop0_def)
  next
    case (Resolved ls)
    with assms part l have
      d: "deleteOrphans cfg api (existingPropsMap ls) (c_stats ls) (c_operationCount ls) w1 = (r, w')"
      by (simp add: syncChildren_def childLoop0_def)
    from m Resolved k have "n_uid ` snd ` set (existingPropsMap ls)
        \<subseteq> n_uid ` keyedChildren cfg existingChildren"
      by blast
    from confinedBy_deleteOrphans[OF d this] c1 show ?thesis
      by (blast intro: confinedBy_trans)
  qed
qed

lemma buildExistingMapFrom_values:
  "snd ` set (buildExistingMapFrom cfg nodes m) \<subseteq> snd ` set m \<union> managedNodes cfg nodes"
proof (induction nodes arbitrary: m)
  case Nil
  then show ?case by simp
next
  case (Cons n nodes)
  have mono: "managedNodes cfg nodes \<subseteq> managedNodes cfg (n # nodes)"
    by (auto simp: managedNodes_def)
  show ?case
  proof (cases "truthy (extractIdFromBlock cfg n)")
    case None
    with Cons.IH[of m] mono show ?thesis by auto
  next
    case (Some ident)
    then have "n \<in> managedNodes cfg (n # nodes)" by (simp add: managedNodes_def)
    with Cons.IH[of "AList.update ident n m"] values_update[of ident n m] mono
    have "snd ` set (buildExistingMapFrom cfg nodes (AList.update ident n m))
            \<subseteq> snd ` set m \<union> managedNodes cfg (n # nodes)"
      by blast
    with Some show ?thesis by simp
  qed
qed

lemma buildExistingMap_values:
  "snd ` set (buildExistingMap cfg nodes) \<subseteq> managedNodes cfg nodes"
  using buildExistingMapFrom_values[of cfg nodes "[]"] by (simp add: buildExistingMap_def)

lemma childAllowed_within:
  "childAllowed p keyed special ev \<Longrightarrow> insert p (keyed \<union> special) \<subseteq> U \<Longrightarrow> within U ev"
  by (cases ev) auto

lemma confinedBy_updateExistingBlock:
  assumes "updateExistingBlock this api existing newBlock w = (r, w')"
    and "existing \<in> managed"
  shows "confinedBy (within (reach parentUid managed)) w w'"
proof -
  let ?P = "within (reach parentUid managed)"
  from assms(2) have uid: "n_uid existing \<in> reach parentUid managed"
    by (auto simp: reach_def)
  define first where "first =
    (if n_text existing \<noteq> p_text newBlock
     then (case await_updateBlock api (n_uid existing) (p_text newBlock) w of
             (Some e, w1) \<Rightarrow> (Some e, w1)
           | (None, w1) \<Rightarrow> (None, delay (mutationDelay (config this)) w1))
     else (None, w))"
  obtain r1 w1 where f: "first = (r1, w1)" by (cases first)
  have c1: "confinedBy ?P w w1"
  proof (cases "n_text existing \<noteq> p_text newBlock")
    case False
    with f show ?thesis by (simp add: first_def confinedBy_refl)
  next
    case True
    obtain r0 w0 where u: "await_updateBlock api (n_uid existing) (p_text newBlock) w = (r0, w0)"
      by (cases "await_updateBlock api (n_uid existing) (p_text newBlock) w")
    from uid have "confinedBy ?P w w0"
      by (intro confinedBy_event[OF await_updateBlock_trace[OF u]]) simp
    with True f u show ?thesis
      by (cases r0) (auto simp: first_def intro: confinedBy_then_delay)
  qed
  show ?thesis
  proof (cases r1)
    case (Some e)
    with assms(1) f c1 show ?thesis by (simp add: updateExistingBlock_def first_def[symmetric])
  next
    case None
    show ?thesis
    proof (cases "childrenReconciler this")
      case nocr: None
      with assms(1) f c1 None show ?thesis
        by (simp add: updateExistingBlock_def first_def[symmetric])
    next
      case (Some ccfg)
      show ?thesis
      proof (cases "p_children newBlock")
        case noch: None
        with assms(1) f c1 None Some show ?thesis
          by (simp add: updateExistingBlock_def first_def[symmetric])
      next
        case (Some newChildren)
        let ?ex = "orEmpty (n_children existing)"
        obtain r2 w2 where
          s: "syncChildren ccfg api (n_uid existing) ?ex newChildren w1 = (r2, w2)"
          by (cases "syncChildren ccfg api (n_uid existing) ?ex newChildren w1")
        have sub: "insert (n_uid existing)
                     (n_uid ` keyedChildren ccfg ?ex \<union> n_uid ` specialChildren ccfg ?ex)
                   \<subseteq> reach parentUid managed"
          using assms(2) by (auto simp: reach_def keyedChildren_def specialChildren_def)
        have "confinedBy ?P w1 w2"
          by (rule confinedBy_mono[OF confinedBy_syncChildren[OF s]])
             (erule childAllowed_within[OF _ sub])
        with c1 have "confinedBy ?P w w2" by (rule confinedBy_trans)
        with assms(1) f None \<open>childrenReconciler this = Some ccfg\<close> Some s show ?thesis
          by (cases r2) (simp_all add: updateExistingBlock_def first_def[symmetric])
      qed
    qed
  qed
qed

lemma confinedBy_reconcileItem:
  assumes "reconcileItem this api parentUid existingMap item ls w = (r, w')"
    and "snd ` set existingMap \<subseteq> managed"
  shows "confinedBy (within (reach parentUid managed)) w w'"
proof (cases "map_of existingMap (extractId (config this) item)")
  case None
  obtain r1 w1 where
    c: "createNewBlock api parentUid (buildBlock (config this) item) w = (r1, w1)"
    by (cases "createNewBlock api parentUid (buildBlock (config this) item) w")
  then have "trace w1 = trace w @ [CreateBlock parentUid (buildBlock (config this) item)]"
    unfolding createNewBlock_def by (rule await_createBlock_trace)
  then have "confinedBy (within (reach parentUid managed)) w w1"
    by (rule confinedBy_event) (simp add: reach_def)
  with assms(1) None c show ?thesis
    by (cases r1) (auto simp: reconcileItem_def Let_def)
next
  case (Some existingNode)
  then have "existingNode \<in> snd ` set existingMap" by (force dest: map_of_SomeD)
  with assms(2) have m: "existingNode \<in> managed" by auto
  obtain r1 w1 where
    u: "updateExistingBlock this api existingNode (buildBlock (config this) item) w = (r1, w1)"
    by (cases "updateExistingBlock this api existingNode (buildBlock (config this) item) w")
  from confinedBy_updateExistingBlock[OF u m] assms(1) Some u show ?thesis
    by (cases r1) (auto simp: reconcileItem_def Let_def confinedBy_refl split: if_splits)
qed

lemma confinedBy_reconcileItems:
  "reconcileItems this api parentUid existingMap items ls w = (r, w') \<Longrightarrow>
   snd ` set existingMap \<subseteq> managed \<Longrightarrow>
     confinedBy (within (reach parentUid managed)) w w'"
proof (induction items arbitrary: ls w)
  case Nil
  then show ?case by (auto simp: confinedBy_refl)
next
  case (Cons item items)
  let ?P = "within (reach parentUid managed)"
  obtain r1 w1 where s: "reconcileItem this api parentUid existingMap item ls w = (r1, w1)"
    by (cases "reconcileItem this api parentUid existingMap item ls w")
  note c1 = confinedBy_reconcileItem[OF s Cons.prems(2)]
  show ?case
  proof (cases r1)
    case (Rejected e st)
    with Cons.prems s c1 show ?thesis by auto
  next
    case (Resolved ls1)
    with Cons.prems s have
      rest: "reconcileItems this api parentUid existingMap items
         (ls1\<lparr>operationCount := operationCount ls1 + 1\<rparr>)
         (maybeYieldToMain (config this) (operationCount ls1 + 1) w1) = (r, w')"
      by (simp add: Let_def)
    have "confinedBy ?P w (maybeYieldToMain (config this) (operationCount ls1 + 1) w1)"
      by (rule confinedBy_then_maybeYieldToMain[OF c1]) simp
    with Cons.IH[OF rest Cons.prems(2)] show ?thesis by (blast intro: confinedBy_trans)
  qed
qed

lemma confinedBy_removeObsoleteFrom:
  "removeObsoleteFrom cfg api m seen dc oc w = (r, w') \<Longrightarrow> snd ` set m \<subseteq> managed \<Longrightarrow>
     confinedBy (within (reach parentUid managed)) w w'"
proof (induction m arbitrary: dc oc w)
  case Nil
  then show ?case by (auto simp: confinedBy_refl)
next
  case (Cons entry m)
  let ?P = "within (reach parentUid managed)"
  obtain ident node where entry: "entry = (ident, node)" by (cases entry)
  from Cons.prems(2) entry have node: "n_uid node \<in> reach parentUid managed"
    and sub: "snd ` set m \<subseteq> managed"
    by (auto simp: reach_def)
  show ?case
  proof (cases "ident \<in> seen \<or> callPreserveWhen cfg node")
    case True
    with Cons.prems entry have "removeObsoleteFrom cfg api m seen dc oc w = (r, w')"
      by (auto split: if_splits)
    from Cons.IH[OF this sub] show ?thesis .
  next
    case False
    obtain r1 w1 where d: "await_deleteBlock api (n_uid node) w = (r1, w1)"
      by (cases "await_deleteBlock api (n_uid node) w")
    from node have c1: "confinedBy ?P w w1"
      by (intro confinedBy_event[OF await_deleteBlock_trace[OF d]]) simp
    show ?thesis
    proof (cases r1)
      case (Some e)
      with Cons.prems entry False d c1 show ?thesis by auto
    next
      case None
      with Cons.prems entry False d have
        rest: "removeObsoleteFrom cfg api m seen (dc + 1) (oc + 1)
           (maybeYieldToMain cfg (oc + 1) (delay (mutationDelay cfg) w1)) = (r, w')"
        by simp
      have "confinedBy ?P w (delay (mutationDelay cfg) w1)"
        by (rule confinedBy_then_delay[OF c1]) simp
      then have "confinedBy ?P w (maybeYieldToMain cfg (oc + 1) (delay (mutationDelay cfg) w1))"
        by (rule confinedBy_then_maybeYieldToMain) simp
      with Cons.IH[OF rest sub] show ?thesis by (blast intro: confinedBy_trans)
    qed
  qed
qed

lemma confinedBy_reconcile:
  assumes "reconcile this api parentUid items w = (r, w')"
  shows "confinedBy (within (reach parentUid
           (managedNodes (config this) (getChildren api (backend w) parentUid)))) w w'"
proof -
  let ?nodes = "getChildren api (backend w) parentUid"
  let ?M = "buildExistingMap (config this) ?nodes"
  let ?P = "within (reach parentUid (managedNodes (config this) ?nodes))"
  note sub = buildExistingMap_values[of "config this" ?nodes]
  obtain r1 w1 where
    l: "reconcileItems this api parentUid ?M items (loop0 (length items)) w = (r1, w1)"
    by (cases "reconcileItems this api parentUid ?M items (loop0 (length items)) w")
  note c1 = confinedBy_reconcileItems[OF l sub]
  show ?thesis
  proof (cases r1)
    case (Rejected e st)
    with assms l c1 show ?thesis by (auto simp: reconcile_def Let_def loop0_def)
  next
    case (Resolved ls)
    obtain r2 w2 where d: "removeObsolete (config this) api ?M (seenIds ls) w1 = (r2, w2)"
      by (cases "removeObsolete (config this) api ?M (seenIds ls) w1")
    from d have "confinedBy ?P w1 w2"
      unfolding removeObsolete_def by (rule confinedBy_removeObsoleteFrom[OF _ sub])
    with c1 have "confinedBy ?P w w2" by (rule confinedBy_trans)
    with assms l Resolved d show ?thesis
      by (cases r2) (auto simp: reconcile_def Let_def loop0_def)
  qed
qed

lemma within_not_targets: "within U ev \<Longrightarrow> u \<notin> U \<Longrightarrow> \<not> targets u ev"
  by (cases ev) auto

lemma reconcile_frame:
  assumes node: "node \<in> set (getChildren api (backend w) parentUid)"
    and absent: "truthy (extractIdFromBlock (config this) node) = None"
    and parent: "n_uid node \<noteq> parentUid"
    and owns: "ownsUid node (getChildren api (backend w) parentUid)"
    and run: "reconcile this api parentUid items w = (r, w')"
  shows "node \<notin> snd ` set (buildExistingMap (config this) (getChildren api (backend w) parentUid))
       \<and> (\<exists>evs. trace w' = trace w @ evs \<and> (\<forall>ev \<in> set evs. \<not> targets (n_uid node) ev))"
proof -
  let ?nodes = "getChildren api (backend w) parentUid"
  let ?managed = "managedNodes (config this) ?nodes"
  from absent have notm: "node \<notin> ?managed" by (simp add: managedNodes_def)
  with buildExistingMap_values[of "config this" ?nodes]
  have notin: "node \<notin> snd ` set (buildExistingMap (config this) ?nodes)" by blast
  have out: "n_uid node \<notin> reach parentUid ?managed"
  proof
    assume "n_uid node \<in> reach parentUid ?managed"
    with parent obtain m where m: "m \<in> ?managed"
      "n_uid node = n_uid m \<or> n_uid node \<in> n_uid ` set (orEmpty (n_children m))"
      by (auto simp: reach_def)
    from m(1) notm have "m \<noteq> node" "m \<in> set ?nodes" by (auto simp: managedNodes_def)
    with owns m(2) show False by (auto simp: ownsUid_def)
  qed
  from confinedBy_reconcile[OF run] obtain evs where
    evs: "trace w' = trace w @ evs" "list_all (within (reach parentUid ?managed)) evs"
    by (auto simp: confinedBy_def)
  from evs(2) out have "\<forall>ev \<in> set evs. \<not> targets (n_uid node) ev"
    by (auto simp: list_all_iff dest: within_not_targets)
  with evs(1) notin show ?thesis by blast
qed

text \<open>
  C7. A fetched top-level node for which \<open>extractIdFromBlock\<close> returns absent is not in the
  identifier map, and no mutation of the pass targets its uid, whatever its content and
  whether the pass resolves or rejects: no update, no delete, no creation under it. (Its uid
  is its own among the fetched nodes, and is not the parent's.)
\<close>

theorem unextractable_nodes_untouched:
  assumes "node \<in> set (getChildren api (backend w) parentUid)"
    and "extractIdFromBlock (config this) node = None"
    and "n_uid node \<noteq> parentUid"
    and "ownsUid node (getChildren api (backend w) parentUid)"
    and "reconcile this api parentUid items w = (r, w')"
  shows "node \<notin> snd ` set (buildExistingMap (config this) (getChildren api (backend w) parentUid))
       \<and> (\<exists>evs. trace w' = trace w @ evs \<and> (\<forall>ev \<in> set evs. \<not> targets (n_uid node) ev))"
  using reconcile_frame[OF assms(1) _ assms(3,4,5)] assms(2) by simp

lemma syncChildren_frame:
  assumes child: "child \<in> set existingChildren"
    and nokey: "truthy (extractKey cfg (n_text child)) = None"
    and owns: "\<forall>c \<in> set existingChildren. c \<noteq> child \<longrightarrow> n_uid c \<noteq> n_uid child"
    and run: "syncChildren cfg api parentUid existingChildren newChildren w = (r, w')"
  shows "child \<notin> snd ` set (fst (partitionExisting cfg existingChildren ([], [])))
       \<and> (\<exists>evs. trace w' = trace w @ evs \<and>
             (\<forall>ev \<in> set evs. \<forall>text. ev \<noteq> UpdateBlock (n_uid child) text) \<and>
             (DeleteBlock (n_uid child) \<in> set evs \<longrightarrow> callIsSpecialBlock cfg (n_text child)))"
proof -
  let ?K = "keyedChildren cfg existingChildren"
  let ?S = "specialChildren cfg existingChildren"
  from nokey have notk: "child \<notin> ?K" by (simp add: keyedChildren_def)
  have uidk: "n_uid child \<notin> n_uid ` ?K"
  proof
    assume "n_uid child \<in> n_uid ` ?K"
    then obtain c where "c \<in> ?K" "n_uid c = n_uid child" by auto
    with notk owns show False by (auto simp: keyedChildren_def)
  qed
  have uids: "n_uid child \<in> n_uid ` ?S \<Longrightarrow> callIsSpecialBlock cfg (n_text child)"
  proof -
    assume "n_uid child \<in> n_uid ` ?S"
    then obtain c where c: "c \<in> ?S" "n_uid c = n_uid child" by auto
    with owns have "c = child" by (auto simp: specialChildren_def)
    with c(1) show ?thesis by (simp add: specialChildren_def)
  qed
  obtain pm sp where part: "partitionExisting cfg existingChildren ([], []) = (pm, sp)"
    by (cases "partitionExisting cfg existingChildren ([], [])")
  from partitionExisting_values[OF part] notk have notin: "child \<notin> snd ` set pm" by auto
  from confinedBy_syncChildren[OF run] obtain evs where
    evs: "trace w' = trace w @ evs"
         "list_all (childAllowed parentUid (n_uid ` ?K) (n_uid ` ?S)) evs"
    by (auto simp: confinedBy_def)
  have "\<forall>ev \<in> set evs. \<forall>text. ev \<noteq> UpdateBlock (n_uid child) text"
  proof (intro ballI allI notI)
    fix ev t assume "ev \<in> set evs" "ev = UpdateBlock (n_uid child) t"
    with evs(2) have "n_uid child \<in> n_uid ` ?K" by (auto simp: list_all_iff)
    with uidk show False ..
  qed
  moreover have "DeleteBlock (n_uid child) \<in> set evs \<longrightarrow> callIsSpecialBlock cfg (n_text child)"
  proof
    assume "DeleteBlock (n_uid child) \<in> set evs"
    with evs(2) have "n_uid child \<in> n_uid ` ?K \<or> n_uid child \<in> n_uid ` ?S"
      by (auto simp: list_all_iff)
    with uidk uids show "callIsSpecialBlock cfg (n_text child)" by blast
  qed
  ultimately show ?thesis using evs(1) notin part by auto
qed

lemma truthy_idem [simp]: "truthy (truthy x) = truthy x"
  by (cases x) auto

lemma truthy_nonempty: "truthy x = Some k \<Longrightarrow> k \<noteq> []"
  by (cases x) (auto split: if_splits)

lemma emptyKeyAsAbsent_simps:
  "extractKey (emptyKeyAsAbsent cfg) t = truthy (extractKey cfg t)"
  "childMutationDelay (emptyKeyAsAbsent cfg) = childMutationDelay cfg"
  "callIsSpecialBlock (emptyKeyAsAbsent cfg) t = callIsSpecialBlock cfg t"
  by (simp_all add: emptyKeyAsAbsent_def childMutationDelay_def callIsSpecialBlock_def)

lemma emptyIdAsAbsent_simps:
  "extractIdFromBlock (config (emptyIdAsAbsent this)) node
     = truthy (extractIdFromBlock (config this) node)"
  "extractId (config (emptyIdAsAbsent this)) = extractId (config this)"
  "buildBlock (config (emptyIdAsAbsent this)) = buildBlock (config this)"
  "childrenReconciler (emptyIdAsAbsent this) = childrenReconciler this"
  "mutationDelay (config (emptyIdAsAbsent this)) = mutationDelay (config this)"
  "maybeYieldToMain (config (emptyIdAsAbsent this)) n v = maybeYieldToMain (config this) n v"
  "callPreserveWhen (config (emptyIdAsAbsent this)) node = callPreserveWhen (config this) node"
  by (simp_all add: emptyIdAsAbsent_def mutationDelay_def maybeYieldToMain_def yieldBatch_def
        callPreserveWhen_def)

lemma partitionExisting_emptyKeyAsAbsent:
  "partitionExisting (emptyKeyAsAbsent cfg) cs acc = partitionExisting cfg cs acc"
proof (induction cs arbitrary: acc)
  case Nil
  then show ?case by (cases acc) simp
next
  case (Cons c cs)
  then show ?case
    by (cases acc) (simp add: emptyKeyAsAbsent_simps split: option.splits)
qed

lemma deleteSpecialBlocks_emptyKeyAsAbsent:
  "deleteSpecialBlocks (emptyKeyAsAbsent cfg) api bs st w = deleteSpecialBlocks cfg api bs st w"
  by (induction bs arbitrary: st w)
     (simp_all add: emptyKeyAsAbsent_simps split: prod.splits option.splits)

lemma syncChild_emptyKeyAsAbsent:
  "syncChild (emptyKeyAsAbsent cfg) api parentUid newChild ls w
     = syncChild cfg api parentUid newChild ls w"
  unfolding syncChild_def deleteSpecialBlocks_emptyKeyAsAbsent emptyKeyAsAbsent_simps truthy_idem
  by (rule refl)

lemma syncNewChildren_emptyKeyAsAbsent:
  "syncNewChildren (emptyKeyAsAbsent cfg) api parentUid cs ls w
     = syncNewChildren cfg api parentUid cs ls w"
  by (induction cs arbitrary: ls w)
     (simp_all add: syncChild_emptyKeyAsAbsent split: prod.splits outcome.splits)

lemma deleteOrphans_emptyKeyAsAbsent:
  "deleteOrphans (emptyKeyAsAbsent cfg) api m st oc w = deleteOrphans cfg api m st oc w"
proof (induction m arbitrary: st oc w)
  case Nil
  then show ?case by simp
next
  case (Cons entry m)
  then show ?case
    by (cases entry) (simp add: emptyKeyAsAbsent_simps split: prod.splits option.splits)
qed

lemma syncChildren_emptyKeyAsAbsent:
  "syncChildren (emptyKeyAsAbsent cfg) api parentUid existingChildren newChildren w
     = syncChildren cfg api parentUid existingChildren newChildren w"
  unfolding syncChildren_def childLoop0_def partitionExisting_emptyKeyAsAbsent
    syncNewChildren_emptyKeyAsAbsent deleteOrphans_emptyKeyAsAbsent
  by (rule refl)

lemma buildExistingMapFrom_emptyIdAsAbsent:
  "buildExistingMapFrom (config (emptyIdAsAbsent this)) nodes m
     = buildExistingMapFrom (config this) nodes m"
  by (induction nodes arbitrary: m) (simp_all add: emptyIdAsAbsent_simps split: option.splits)

lemma updateExistingBlock_emptyIdAsAbsent:
  "updateExistingBlock (emptyIdAsAbsent this) api existing newBlock w
     = updateExistingBlock this api existing newBlock w"
  unfolding updateExistingBlock_def emptyIdAsAbsent_simps by (rule refl)

lemma reconcileItem_emptyIdAsAbsent:
  "reconcileItem (emptyIdAsAbsent this) api parentUid existingMap item ls w
     = reconcileItem this api parentUid existingMap item ls w"
  unfolding reconcileItem_def updateExistingBlock_emptyIdAsAbsent emptyIdAsAbsent_simps
  by (rule refl)

lemma reconcileItems_emptyIdAsAbsent:
  "reconcileItems (emptyIdAsAbsent this) api parentUid existingMap items ls w
     = reconcileItems this api parentUid existingMap items ls w"
proof (induction items arbitrary: ls w)
  case Nil
  then show ?case by simp
next
  case (Cons item items)
  from Cons show ?case
    by (simp add: reconcileItem_emptyIdAsAbsent emptyIdAsAbsent_simps
          split: prod.splits outcome.splits)
qed

lemma removeObsoleteFrom_emptyIdAsAbsent:
  "removeObsoleteFrom (config (emptyIdAsAbsent this)) api m seen dc oc w
     = removeObsoleteFrom (config this) api m seen dc oc w"
proof (induction m arbitrary: dc oc w)
  case Nil
  then show ?case by simp
next
  case (Cons entry m)
  from Cons show ?case
    by (cases entry) (simp add: emptyIdAsAbsent_simps split: prod.splits option.splits)
qed

lemma reconcile_emptyIdAsAbsent:
  "reconcile (emptyIdAsAbsent this) api parentUid items w = reconcile this api parentUid items w"
  unfolding reconcile_def buildExistingMap_def removeObsolete_def
    buildExistingMapFrom_emptyIdAsAbsent reconcileItems_emptyIdAsAbsent
    removeObsoleteFrom_emptyIdAsAbsent
  by (rule refl)

lemma buildExistingMapFrom_keys:
  "[] \<notin> fst ` set m \<Longrightarrow> [] \<notin> fst ` set (buildExistingMapFrom cfg nodes m)"
proof (induction nodes arbitrary: m)
  case Nil
  then show ?case by simp
next
  case (Cons n nodes)
  show ?case
  proof (cases "truthy (extractIdFromBlock cfg n)")
    case None
    with Cons show ?thesis by simp
  next
    case (Some ident)
    with Cons.prems truthy_nonempty[OF Some] have "[] \<notin> fst ` set (AList.update ident n m)"
      by (simp add: dom_update)
    from Cons.IH[OF this] Some show ?thesis by simp
  qed
qed

lemma partitionExisting_no_empty_key:
  "[] \<notin> fst ` set (fst (partitionExisting cfg cs ([], [])))"
proof -
  obtain pm sp where part: "partitionExisting cfg cs ([], []) = (pm, sp)"
    by (cases "partitionExisting cfg cs ([], [])")
  from partitionExisting_keys[OF part] have "fst ` set pm = existingKeys cfg cs" by simp
  moreover have "[] \<notin> existingKeys cfg cs"
    by (auto simp: existingKeys_def dest: truthy_nonempty)
  ultimately show ?thesis using part by simp
qed

theorem unextractable_nodes_untouched_witness:
  "reconcile testReconciler mockAdapter ''page'' []
     (world0 [RoamNode ''Some-random-block'' ''uid-0'' None, RoamNode ''1 Task 1'' ''uid-1'' None])
   = (Resolved \<lparr>total = 0, skipped = 0, created = 0, updated = 0, deleted = 1\<rparr>,
      \<lparr>backend = [RoamNode ''Some-random-block'' ''uid-0'' None, RoamNode ''1 Task 1'' ''uid-1'' None],
       trace = [DeleteBlock ''uid-1'', Delay 0]\<rparr>)
   \<and> RoamNode ''Some-random-block'' ''uid-0'' None
       \<notin> snd ` set (buildExistingMap (config testReconciler)
            [RoamNode ''Some-random-block'' ''uid-0'' None, RoamNode ''1 Task 1'' ''uid-1'' None])
   \<and> (\<exists>evs. [DeleteBlock ''uid-1'', Delay 0] = evs \<and> list_all (\<lambda>ev. \<not> targets ''uid-0'' ev) evs)"
proof -
  let ?nodes = "[RoamNode ''Some-random-block'' ''uid-0'' None, RoamNode ''1 Task 1'' ''uid-1'' None]"
  have run: "reconcile testReconciler mockAdapter ''page'' [] (world0 ?nodes)
   = (Resolved \<lparr>total = 0, skipped = 0, created = 0, updated = 0, deleted = 1\<rparr>,
      \<lparr>backend = ?nodes, trace = [DeleteBlock ''uid-1'', Delay 0]\<rparr>)"
    by code_simp
  have nodes: "getChildren mockAdapter (backend (world0 ?nodes)) ''page'' = ?nodes"
    by (simp add: mockAdapter_def world0_def)
  have absent: "extractIdFromBlock (config testReconciler) (RoamNode ''Some-random-block'' ''uid-0'' None)
                  = None"
    by (simp add: testReconciler_def testConfig_def)
  have owns: "ownsUid (RoamNode ''Some-random-block'' ''uid-0'' None) ?nodes"
    by (simp add: ownsUid_def)
  from unextractable_nodes_untouched
    [where node = "RoamNode ''Some-random-block'' ''uid-0'' None" and api = mockAdapter
       and w = "world0 ?nodes" and parentUid = "''page''" and this = testReconciler
       and items = "[]", unfolded nodes, OF _ absent _ owns run]
  show ?thesis using run by (simp add: world0_def list_all_iff)
qed

text \<open>
  C10, as amended. An empty-string result of \<open>extractIdFromBlock\<close> or \<open>extractKey\<close> is
  treated exactly like an absent one: the pass is the same as with an extraction that returns
  absent there, and the empty string is never a key of the identifier map or of the key map.
  So a top-level node with the empty id is not in the map and no mutation targets its uid;
  an existing child with the empty key is not in the key map and is never updated, and it is
  deleted only if \<open>isSpecialBlock\<close> accepts its text (it is then tracked as a special block,
  as with an absent key).
\<close>

theorem empty_extraction_is_absent:
  "reconcile (emptyIdAsAbsent this) api parentUid items w = reconcile this api parentUid items w
 \<and> syncChildren (emptyKeyAsAbsent cfg) api parentUid' existingChildren newChildren v
     = syncChildren cfg api parentUid' existingChildren newChildren v
 \<and> [] \<notin> fst ` set (buildExistingMap (config this) nodes)
 \<and> [] \<notin> fst ` set (fst (partitionExisting cfg existingChildren ([], [])))
 \<and> (node \<in> set (getChildren api (backend w) parentUid) \<and>
     extractIdFromBlock (config this) node = Some [] \<and>
     n_uid node \<noteq> parentUid \<and> ownsUid node (getChildren api (backend w) parentUid) \<and>
     reconcile this api parentUid items w = (r, w') \<longrightarrow>
       node \<notin> snd ` set (buildExistingMap (config this) (getChildren api (backend w) parentUid)) \<and>
       (\<exists>evs. trace w' = trace w @ evs \<and> (\<forall>ev \<in> set evs. \<not> targets (n_uid node) ev)))
 \<and> (child \<in> set existingChildren \<and> extractKey cfg (n_text child) = Some [] \<and>
     (\<forall>c \<in> set existingChildren. c \<noteq> child \<longrightarrow> n_uid c \<noteq> n_uid child) \<and>
     syncChildren cfg api parentUid' existingChildren newChildren v = (r', v') \<longrightarrow>
       child \<notin> snd ` set (fst (partitionExisting cfg existingChildren ([], []))) \<and>
       (\<exists>evs. trace v' = trace v @ evs \<and>
          (\<forall>ev \<in> set evs. \<forall>t. ev \<noteq> UpdateBlock (n_uid child) t) \<and>
          (DeleteBlock (n_uid child) \<in> set evs \<longrightarrow> callIsSpecialBlock cfg (n_text child))))"
proof (intro conjI impI)
  show "reconcile (emptyIdAsAbsent this) api parentUid items w = reconcile this api parentUid items w"
    by (rule reconcile_emptyIdAsAbsent)
  show "syncChildren (emptyKeyAsAbsent cfg) api parentUid' existingChildren newChildren v
     = syncChildren cfg api parentUid' existingChildren newChildren v"
    by (rule syncChildren_emptyKeyAsAbsent)
  show "[] \<notin> fst ` set (buildExistingMap (config this) nodes)"
    unfolding buildExistingMap_def by (rule buildExistingMapFrom_keys) simp
  show "[] \<notin> fst ` set (fst (partitionExisting cfg existingChildren ([], [])))"
    by (rule partitionExisting_no_empty_key)
next
  assume a: "node \<in> set (getChildren api (backend w) parentUid) \<and>
     extractIdFromBlock (config this) node = Some [] \<and>
     n_uid node \<noteq> parentUid \<and> ownsUid node (getChildren api (backend w) parentUid) \<and>
     reconcile this api parentUid items w = (r, w')"
  then have "truthy (extractIdFromBlock (config this) node) = None" by simp
  from reconcile_frame[OF _ this] a
  show "node \<notin> snd ` set (buildExistingMap (config this) (getChildren api (backend w) parentUid))"
    and "\<exists>evs. trace w' = trace w @ evs \<and> (\<forall>ev \<in> set evs. \<not> targets (n_uid node) ev)"
    by blast+
next
  assume a: "child \<in> set existingChildren \<and> extractKey cfg (n_text child) = Some [] \<and>
     (\<forall>c \<in> set existingChildren. c \<noteq> child \<longrightarrow> n_uid c \<noteq> n_uid child) \<and>
     syncChildren cfg api parentUid' existingChildren newChildren v = (r', v')"
  then have "truthy (extractKey cfg (n_text child)) = None" by simp
  from syncChildren_frame[OF _ this] a
  show "child \<notin> snd ` set (fst (partitionExisting cfg existingChildren ([], [])))"
    and "\<exists>evs. trace v' = trace v @ evs \<and>
          (\<forall>ev \<in> set evs. \<forall>t. ev \<noteq> UpdateBlock (n_uid child) t) \<and>
          (DeleteBlock (n_uid child) \<in> set evs \<longrightarrow> callIsSpecialBlock cfg (n_text child))"
    by blast+
qed

text \<open>
  C10, as stated, fails: an existing child whose key is the empty string and that
  \<open>isSpecialBlock\<close> accepts is deleted when a desired special child is processed.
\<close>

theorem empty_key_special_child_is_deleted:
  "extractKey emptyKeyConfig (n_text (RoamNode ''::comments'' ''uid-1'' None)) = Some []
 \<and> syncChildren emptyKeyConfig mockAdapter ''parent-uid''
      [RoamNode ''::comments'' ''uid-1'' None]
      [BlockPayload ''::comments'' (Some [BlockPayload ''New comment'' None])] (world0 [])
    = (Resolved \<lparr>c_skipped = 0, c_updated = 0, c_created = 1, c_deleted = 1\<rparr>,
       \<lparr>backend = [],
        trace = [DeleteBlock ''uid-1'', Delay 0,
                 CreateBlock ''parent-uid''
                   (BlockPayload ''::comments'' (Some [BlockPayload ''New comment'' None])),
                 Delay 0]\<rparr>)"
  by code_simp

theorem empty_extraction_is_absent_witness:
  "reconcile (emptyIdAsAbsent testReconciler) mockAdapter ''page'' []
     (world0 [RoamNode '' Untitled'' ''uid-0'' None, RoamNode ''1 Task 1'' ''uid-1'' None])
   = (Resolved \<lparr>total = 0, skipped = 0, created = 0, updated = 0, deleted = 1\<rparr>,
      \<lparr>backend = [RoamNode '' Untitled'' ''uid-0'' None, RoamNode ''1 Task 1'' ''uid-1'' None],
       trace = [DeleteBlock ''uid-1'', Delay 0]\<rparr>)
 \<and> RoamNode '' Untitled'' ''uid-0'' None
     \<notin> snd ` set (buildExistingMap (config testReconciler)
          [RoamNode '' Untitled'' ''uid-0'' None, RoamNode ''1 Task 1'' ''uid-1'' None])
 \<and> syncChildren (emptyKeyAsAbsent testChildConfig) mockAdapter ''uid-1''
     [RoamNode '':: note'' ''c0'' None, RoamNode ''priority:: low'' ''c1'' None]
     [BlockPayload ''priority:: high'' None] (world0 [])
   = (Resolved \<lparr>c_skipped = 0, c_updated = 1, c_created = 0, c_deleted = 0\<rparr>,
      \<lparr>backend = [], trace = [UpdateBlock ''c1'' ''priority:: high'', Delay 0]\<rparr>)
 \<and> RoamNode '':: note'' ''c0'' None
     \<notin> snd ` set (fst (partitionExisting testChildConfig
          [RoamNode '':: note'' ''c0'' None, RoamNode ''priority:: low'' ''c1'' None] ([], [])))"
proof -
  let ?nodes = "[RoamNode '' Untitled'' ''uid-0'' None, RoamNode ''1 Task 1'' ''uid-1'' None]"
  let ?ex = "[RoamNode '':: note'' ''c0'' None, RoamNode ''priority:: low'' ''c1'' None]"
  have run: "reconcile testReconciler mockAdapter ''page'' [] (world0 ?nodes)
   = (Resolved \<lparr>total = 0, skipped = 0, created = 0, updated = 0, deleted = 1\<rparr>,
      \<lparr>backend = ?nodes, trace = [DeleteBlock ''uid-1'', Delay 0]\<rparr>)"
    by code_simp
  have crun: "syncChildren testChildConfig mockAdapter ''uid-1'' ?ex
     [BlockPayload ''priority:: high'' None] (world0 [])
   = (Resolved \<lparr>c_skipped = 0, c_updated = 1, c_created = 0, c_deleted = 0\<rparr>,
      \<lparr>backend = [], trace = [UpdateBlock ''c1'' ''priority:: high'', Delay 0]\<rparr>)"
    by code_simp
  have nodes: "getChildren mockAdapter (backend (world0 ?nodes)) ''page'' = ?nodes"
    by (simp add: mockAdapter_def world0_def)
  have empty: "extractIdFromBlock (config testReconciler) (RoamNode '' Untitled'' ''uid-0'' None)
                 = Some []"
    by (simp add: testReconciler_def testConfig_def)
  have owns: "ownsUid (RoamNode '' Untitled'' ''uid-0'' None) ?nodes"
    by (simp add: ownsUid_def)
  have cempty: "extractKey testChildConfig (n_text (RoamNode '':: note'' ''c0'' None)) = Some []"
    by (simp add: testChildConfig_def)
  note t = empty_extraction_is_absent
    [where this = testReconciler and api = mockAdapter and parentUid = "''page''"
       and items = "[]" and w = "world0 ?nodes"
       and node = "RoamNode '' Untitled'' ''uid-0'' None"
       and r = "Resolved \<lparr>total = 0, skipped = 0, created = 0, updated = 0, deleted = 1\<rparr>"
       and w' = "\<lparr>backend = ?nodes, trace = [DeleteBlock ''uid-1'', Delay 0]\<rparr>"
       and cfg = testChildConfig and parentUid' = "''uid-1''" and existingChildren = ?ex
       and newChildren = "[BlockPayload ''priority:: high'' None]" and v = "world0 []"
       and child = "RoamNode '':: note'' ''c0'' None"
       and r' = "Resolved \<lparr>c_skipped = 0, c_updated = 1, c_created = 0, c_deleted = 0\<rparr>"
       and v' = "\<lparr>backend = [], trace = [UpdateBlock ''c1'' ''priority:: high'', Delay 0]\<rparr>"
       and nodes = ?nodes]
  from t run crun empty owns cempty show ?thesis
    by (simp add: nodes)
qed

subsection \<open>Pacing\<close>

text \<open>
  C9. With the default delay of 100 ms, two items and an empty tree: \<open>reconcile\<close> issues the
  two top-level creations one after the other, with no delay after either
  (\<open>createNewBlock\<close> never calls \<open>delay\<close>).
\<close>

theorem top_level_create_has_no_delay:
  "mutationDelay (config defaultReconciler) = 100
 \<and> reconcile defaultReconciler mockAdapter ''page''
     [(''1'', BlockPayload ''1 Task 1'' None), (''2'', BlockPayload ''2 Task 2'' None)] (world0 [])
   = (Resolved \<lparr>total = 2, skipped = 0, created = 2, updated = 0, deleted = 0\<rparr>,
      \<lparr>backend = [],
       trace = [CreateBlock ''page'' (BlockPayload ''1 Task 1'' None),
                CreateBlock ''page'' (BlockPayload ''2 Task 2'' None)]\<rparr>)
 \<and> \<not> delayedAfterEachMutation 100
       [CreateBlock ''page'' (BlockPayload ''1 Task 1'' None),
        CreateBlock ''page'' (BlockPayload ''2 Task 2'' None)]"
  by code_simp

subsection \<open>Idempotence\<close>



























end
